theory Spec2Isabelle
  imports Main
begin

section \<open>JavaScript values used by the offline queue\<close>

text \<open>
  Form payloads, cached API data and parsed responses are JSON values. Numbers are
  restricted to integers, which \<open>JSON.stringify\<close> prints in decimal (the queue logic
  never computes with a payload number), strings are byte strings, and an object is the
  list of its own properties in insertion order.
  A property that is absent (\<open>undefined\<close>) is \<open>None\<close> of an option type.
\<close>

datatype json =
    JNull
  | JBool bool
  | JNum int
  | JStr string
  | JArr "json list"
  | JObj "(string \<times> json) list"

text \<open>JavaScript truthiness, as used by \<open>x || d\<close>, \<open>x && y\<close> and \<open>x ? a : b\<close>.\<close>

fun truthy :: "json \<Rightarrow> bool" where
  "truthy JNull = False"
| "truthy (JBool b) = b"
| "truthy (JNum n) = (n \<noteq> 0)"
| "truthy (JStr s) = (s \<noteq> [])"
| "truthy (JArr xs) = True"
| "truthy (JObj kvs) = True"

definition truthy_opt :: "json option \<Rightarrow> bool" where
  "truthy_opt v = (case v of None \<Rightarrow> False | Some j \<Rightarrow> truthy j)"

text \<open>\<open>s || d\<close> on a string that may be absent: the empty string is falsy.\<close>

definition or_str :: "string option \<Rightarrow> string \<Rightarrow> string" where
  "or_str s d = (case s of None \<Rightarrow> d | Some t \<Rightarrow> if t = [] then d else t)"

text \<open>\<open>n || d\<close> on a number that may be absent: zero is falsy.\<close>

definition or_num :: "nat option \<Rightarrow> nat \<Rightarrow> nat" where
  "or_num n d = (case n of None \<Rightarrow> d | Some m \<Rightarrow> if m = 0 then d else m)"

text \<open>\<open>j || d\<close> on a JSON value that may be absent.\<close>

definition or_json :: "json option \<Rightarrow> json \<Rightarrow> json" where
  "or_json j d = (case j of None \<Rightarrow> d | Some v \<Rightarrow> if truthy v then v else d)"

text \<open>\<open>o || d\<close> on an object that may be absent: every object is truthy.\<close>

definition or_obj :: "'a option \<Rightarrow> 'a \<Rightarrow> 'a" where
  "or_obj v d = (case v of None \<Rightarrow> d | Some x \<Rightarrow> x)"

subsection \<open>Object literals and spread\<close>

text \<open>
  Writing a property keeps the position of a key that is already there and appends a
  new key at the end; \<open>{...a, ...b}\<close> writes the properties of \<open>b\<close> over those of \<open>a\<close>
  one by one, so the later source prevails.
\<close>

fun set_prop :: "string \<Rightarrow> 'v \<Rightarrow> (string \<times> 'v) list \<Rightarrow> (string \<times> 'v) list" where
  "set_prop k v [] = [(k, v)]"
| "set_prop k v ((k', v') # ps) =
     (if k = k' then (k, v) # ps else (k', v') # set_prop k v ps)"

fun spread :: "(string \<times> 'v) list \<Rightarrow> (string \<times> 'v) list \<Rightarrow> (string \<times> 'v) list" where
  "spread target [] = target"
| "spread target ((k, v) # ps) = spread (set_prop k v target) ps"

definition get_prop :: "(string \<times> 'v) list \<Rightarrow> string \<Rightarrow> 'v option" where
  "get_prop obj k = map_of obj k"

subsection \<open>\<open>JSON.stringify\<close>\<close>

definition digit :: "nat \<Rightarrow> char" where
  "digit d = ''0123456789abcdef'' ! d"

function show_nat :: "nat \<Rightarrow> string" where
  "show_nat n = (if n < 10 then [digit n] else show_nat (n div 10) @ [digit (n mod 10)])"
  by pat_completeness auto
termination
  by (relation "measure id") auto

declare show_nat.simps [simp del]

definition show_int :: "int \<Rightarrow> string" where
  "show_int i = (if i < 0 then CHR ''-'' # show_nat (nat (- i)) else show_nat (nat i))"

text \<open>
  A string is quoted; the quote, the backslash and the control characters below
  \<open>0x20\<close> are escaped, the five with a short form by it and the others as \<open>\u00XX\<close>.
\<close>

definition escape_char :: "char \<Rightarrow> string" where
  "escape_char c =
     (if c = CHR 0x22 then [CHR 0x5C, CHR 0x22]
      else if c = CHR 0x5C then [CHR 0x5C, CHR 0x5C]
      else if c = CHR 0x08 then [CHR 0x5C, CHR ''b'']
      else if c = CHR 0x0C then [CHR 0x5C, CHR ''f'']
      else if c = CHR 0x0A then [CHR 0x5C, CHR ''n'']
      else if c = CHR 0x0D then [CHR 0x5C, CHR ''r'']
      else if c = CHR 0x09 then [CHR 0x5C, CHR ''t'']
      else if of_char c < (32 :: nat)
        then [CHR 0x5C, CHR ''u'', CHR ''0'', CHR ''0'',
              digit (of_char c div 16), digit (of_char c mod 16)]
      else [c])"

definition quote :: "string \<Rightarrow> string" where
  "quote s = CHR 0x22 # concat (map escape_char s) @ [CHR 0x22]"

fun stringify :: "json \<Rightarrow> string"
  and stringify_elems :: "json list \<Rightarrow> string"
  and stringify_members :: "(string \<times> json) list \<Rightarrow> string" where
  "stringify JNull = ''null''"
| "stringify (JBool b) = (if b then ''true'' else ''false'')"
| "stringify (JNum n) = show_int n"
| "stringify (JStr s) = quote s"
| "stringify (JArr xs) = ''['' @ stringify_elems xs @ '']''"
| "stringify (JObj kvs) = ''{'' @ stringify_members kvs @ ''}''"
| "stringify_elems [] = []"
| "stringify_elems [x] = stringify x"
| "stringify_elems (x # y # xs) = stringify x @ '','' @ stringify_elems (y # xs)"
| "stringify_members [] = []"
| "stringify_members [(k, v)] = quote k @ '':'' @ stringify v"
| "stringify_members ((k, v) # p # kvs) =
     quote k @ '':'' @ stringify v @ '','' @ stringify_members (p # kvs)"

section \<open>The network\<close>

text \<open>
  A request as \<open>fetch\<close> receives it: the URL and the \<open>init\<close> object's method, headers
  and body (\<open>None\<close> when the body is \<open>undefined\<close>).
\<close>

record request =
  req_url :: string
  req_method :: string
  req_headers :: "(string \<times> string) list"
  req_body :: "string option"

text \<open>
  What a call of \<open>fetch\<close> comes to: the promise rejects (\<open>Throws\<close>), or it resolves
  to a response with a status and a body, which is \<open>None\<close> when the body is not JSON
  (\<open>response.json()\<close> rejects). The network is a parameter of every sync pass: it
  answers a request from the number of calls logged before it (in the worker the calls
  of the pass, in the page the calls of the page).
\<close>

datatype fetch_outcome = Throws | Response nat "json option"

type_synonym network = "nat \<Rightarrow> request \<Rightarrow> fetch_outcome"

definition response_ok :: "nat \<Rightarrow> bool" where
  "response_ok status = (200 \<le> status \<and> status \<le> 299)"

section \<open>The service worker: the IndexedDB queue\<close>

text \<open>
  The form data handed to the queue, in the page and in the \<open>queue-form\<close> message: a
  JavaScript object with a URL and a form id, and with the other properties present or
  not. \<open>DataManager.submitForm\<close> stores the payload under \<open>data\<close>; the enqueue message
  contract names it \<open>body\<close>. A property that no queue code reads
  (\<open>sessionTokenId\<close>) is left out.
\<close>

record form_data =
  fd_url :: string
  fd_method :: "string option"
  fd_headers :: "(string \<times> string) list option"
  fd_body :: "json option"
  fd_data :: "json option"
  fd_formId :: string
  fd_timestamp :: "string option"
  fd_attempts :: "nat option"
  fd_csrfToken :: "string option"

text \<open>
  A record of the object store \<open>formQueue\<close>. The store has key path \<open>id\<close> with
  \<open>autoIncrement\<close>: \<open>sub_id\<close> is the key the store assigned on insertion.
\<close>

record submission =
  sub_id :: nat
  url :: string
  http_method :: string
  headers :: "(string \<times> string) list"
  body :: json
  formId :: string
  timestamp :: string
  attempts :: nat
  csrfToken :: string

datatype error = StorageUnavailable

text \<open>
  The worker's state: whether \<open>indexedDB.open\<close> succeeds, the records of the object
  store in ascending key order (the order \<open>getAll\<close> returns), the store's key
  generator, and the window clients \<open>clients.matchAll()\<close> finds.
\<close>

record sw_state =
  db_ok :: bool
  db_store :: "submission list"
  db_nextKey :: nat
  sw_clients :: "nat list"

datatype client_message = FormsSynced nat nat

datatype port_reply = Reply bool "string option"

subsection \<open>\<open>IndexedDBHelper\<close>\<close>

definition openDB :: "sw_state \<Rightarrow> error + unit" where
  "openDB st = (if db_ok st then Inr () else Inl StorageUnavailable)"

text \<open>\<open>store.add\<close> without a key: the generator's value becomes the key and is advanced.\<close>

definition store_add :: "submission \<Rightarrow> sw_state \<Rightarrow> sw_state" where
  "store_add s st =
     st\<lparr>db_store := db_store st @ [s\<lparr>sub_id := db_nextKey st\<rparr>],
        db_nextKey := Suc (db_nextKey st)\<rparr>"

text \<open>\<open>store.delete(key)\<close>: no effect for a key that is not there.\<close>

definition store_delete :: "nat \<Rightarrow> submission list \<Rightarrow> submission list" where
  "store_delete k rs = filter (\<lambda>r. sub_id r \<noteq> k) rs"

text \<open>
  \<open>store.put(value)\<close>: the record under the value's key is replaced, a value with a
  new key is inserted at its place in key order.
\<close>

fun store_put :: "submission \<Rightarrow> submission list \<Rightarrow> submission list" where
  "store_put s [] = [s]"
| "store_put s (r # rs) =
     (if sub_id s = sub_id r then s # rs
      else if sub_id s < sub_id r then s # r # rs
      else r # store_put s rs)"

definition addToQueue :: "string \<Rightarrow> form_data \<Rightarrow> sw_state \<Rightarrow> (error + unit) \<times> sw_state" where
  "addToQueue now formData st =
     (case openDB st of
        Inl e \<Rightarrow> (Inl e, st)
      | Inr _ \<Rightarrow>
          (Inr (),
           store_add
             \<lparr>sub_id = 0,
              url = fd_url formData,
              http_method = or_str (fd_method formData) ''POST'',
              headers = or_obj (fd_headers formData) [(''Content-Type'', ''application/json'')],
              body = or_json (fd_body formData) (JObj []),
              formId = fd_formId formData,
              timestamp = or_str (fd_timestamp formData) now,
              attempts = or_num (fd_attempts formData) 0,
              csrfToken = or_str (fd_csrfToken formData) []\<rparr>
             st))"

definition getQueue :: "sw_state \<Rightarrow> error + submission list" where
  "getQueue st = (case openDB st of Inl e \<Rightarrow> Inl e | Inr _ \<Rightarrow> Inr (db_store st))"

definition removeFromQueue :: "submission list \<Rightarrow> sw_state \<Rightarrow> (error + unit) \<times> sw_state" where
  "removeFromQueue submissions st =
     (if submissions = [] then (Inr (), st)
      else case openDB st of
        Inl e \<Rightarrow> (Inl e, st)
      | Inr _ \<Rightarrow>
          (Inr (), st\<lparr>db_store := foldl (\<lambda>rs s. store_delete (sub_id s) rs) (db_store st) submissions\<rparr>))"

text \<open>A \<open>put\<close> whose key is not below the key generator advances the generator past it.\<close>

definition updateQueue :: "submission list \<Rightarrow> sw_state \<Rightarrow> (error + unit) \<times> sw_state" where
  "updateQueue submissions st =
     (if submissions = [] then (Inr (), st)
      else case openDB st of
        Inl e \<Rightarrow> (Inl e, st)
      | Inr _ \<Rightarrow>
          (Inr (),
           st\<lparr>db_store := foldl (\<lambda>rs s. store_put s rs) (db_store st) submissions,
              db_nextKey := foldl (\<lambda>n s. max n (Suc (sub_id s))) (db_nextKey st) submissions\<rparr>))"

subsection \<open>The \<open>message\<close> listener\<close>

datatype sw_message = QueueForm form_data | OtherMessage string

text \<open>
  A \<open>queue-form\<close> message adds its form data to the queue and answers on the port;
  any other message is ignored.
\<close>

definition on_message :: "string \<Rightarrow> sw_message \<Rightarrow> sw_state \<Rightarrow> port_reply list \<times> sw_state" where
  "on_message now msg st =
     (case msg of
        QueueForm formData \<Rightarrow>
          (case addToQueue now
                  (formData\<lparr>fd_csrfToken := Some (or_str (fd_csrfToken formData) [])\<rparr>) st of
             (Inr _, st') \<Rightarrow> ([Reply True None], st')
           | (Inl e, st') \<Rightarrow> ([Reply False (Some ''Failed to open database'')], st'))
      | OtherMessage t \<Rightarrow> ([], st))"

subsection \<open>\<open>syncForms\<close>\<close>

text \<open>The request \<open>syncForms\<close> builds for a queued record: the stored headers are spread last.\<close>

definition replay_request :: "submission \<Rightarrow> request" where
  "replay_request formData =
     \<lparr>req_url = url formData,
      req_method = http_method formData,
      req_headers =
        spread [(''Content-Type'', ''application/json''),
                (''X-CSRF-Token'', or_str (Some (csrfToken formData)) [])]
               (headers formData),
      req_body = Some (stringify (body formData))\<rparr>"

text \<open>
  The loop over the queue, with the two result lists and the calls of \<open>fetch\<close> made so
  far, each with the record it was made for.
\<close>

record sync_acc =
  successfulSubmissions :: "submission list"
  failedSubmissions :: "submission list"
  fetched :: "(submission \<times> request) list"

definition bump_attempts :: "submission \<Rightarrow> submission" where
  "bump_attempts formData = formData\<lparr>attempts := or_num (Some (attempts formData)) 0 + 1\<rparr>"

fun sync_loop :: "network \<Rightarrow> submission list \<Rightarrow> sync_acc \<Rightarrow> sync_acc" where
  "sync_loop net [] acc = acc"
| "sync_loop net (formData # rest) acc =
     (if attempts formData \<ge> 3
      then sync_loop net rest
             (acc\<lparr>failedSubmissions := failedSubmissions acc @ [formData]\<rparr>)
      else
        let req = replay_request formData;
            acc' = acc\<lparr>fetched := fetched acc @ [(formData, req)]\<rparr>
        in (case net (length (fetched acc)) req of
              Response status b \<Rightarrow>
                (if response_ok status
                 then sync_loop net rest
                        (acc'\<lparr>successfulSubmissions := successfulSubmissions acc' @ [formData]\<rparr>)
                 else sync_loop net rest
                        (acc'\<lparr>failedSubmissions := failedSubmissions acc' @ [bump_attempts formData]\<rparr>))
            | Throws \<Rightarrow>
                sync_loop net rest
                  (acc'\<lparr>failedSubmissions := failedSubmissions acc' @ [bump_attempts formData]\<rparr>)))"

text \<open>
  What one pass did: the state it left, the calls of \<open>fetch\<close> it made and the
  messages it posted to the clients.
\<close>

record sync_pass =
  sp_state :: sw_state
  sp_fetched :: "(submission \<times> request) list"
  sp_posted :: "(nat \<times> client_message) list"

definition syncForms :: "network \<Rightarrow> sw_state \<Rightarrow> error + sync_pass" where
  "syncForms net st =
     (case getQueue st of
        Inl e \<Rightarrow> Inl e
      | Inr queue \<Rightarrow>
          if queue = [] then Inr \<lparr>sp_state = st, sp_fetched = [], sp_posted = []\<rparr>
          else
            let acc = sync_loop net queue
                        \<lparr>successfulSubmissions = [], failedSubmissions = [], fetched = []\<rparr>
            in (case removeFromQueue (successfulSubmissions acc) st of
                  (Inl e, st1) \<Rightarrow> Inl e
                | (Inr _, st1) \<Rightarrow>
                    (case updateQueue (failedSubmissions acc) st1 of
                       (Inl e, st2) \<Rightarrow> Inl e
                     | (Inr _, st2) \<Rightarrow>
                         Inr \<lparr>sp_state = st2,
                              sp_fetched = fetched acc,
                              sp_posted =
                                map (\<lambda>client.
                                       (client,
                                        FormsSynced (length (successfulSubmissions acc))
                                                    (length (failedSubmissions acc))))
                                    (sw_clients st2)\<rparr>)))"

text \<open>The \<open>sync\<close> listener runs a pass for the tag \<open>sync-form-submissions\<close> only.\<close>

definition on_sync :: "network \<Rightarrow> string \<Rightarrow> sw_state \<Rightarrow> (error + sync_pass) option" where
  "on_sync net tag st =
     (if tag = ''sync-form-submissions'' then Some (syncForms net st) else None)"

section \<open>The page: the localforage queue\<close>

subsection \<open>Strings\<close>

fun starts_with :: "string \<Rightarrow> string \<Rightarrow> bool" where
  "starts_with s [] = True"
| "starts_with [] (p # ps) = False"
| "starts_with (c # cs) (p # ps) = (c = p \<and> starts_with cs ps)"

text \<open>\<open>s.includes(p)\<close>: \<open>p\<close> occurs in \<open>s\<close>.\<close>

fun js_includes :: "string \<Rightarrow> string \<Rightarrow> bool" where
  "js_includes [] p = (p = [])"
| "js_includes (c # cs) p = (starts_with (c # cs) p \<or> js_includes cs p)"

subsection \<open>State\<close>

text \<open>
  \<open>Store\<close>, \<open>OfflineManager\<close> and \<open>DataManager\<close> are the object literals of these
  names in \<open>scripts.js\<close>. What their queue code reads and writes: the offline flag and the session token of
  \<open>Store.state\<close>, the cached API data (\<open>None\<close> for \<open>null\<close> or \<open>undefined\<close>),
  whether the localforage operations succeed, the localforage items \<open>metrics\<close> and
  \<open>formQueue\<close> (an item that was never set reads as the empty list), the content of
  the \<open>csrf-token\<close> meta element, and whether a service worker controls the page.
  Three logs record what the page did: the toasts shown, the messages posted to the
  controller, and the calls of \<open>fetch\<close>.
\<close>

record page_state =
  offline :: bool
  token :: string
  cached_sales :: "json option"
  cached_customers :: "json option"
  cached_vendors :: "json option"
  cached_expenses :: "json option"
  cached_metrics :: "json option"
  lf_ok :: bool
  lf_metrics :: "json option"
  lf_formQueue :: "form_data list"
  csrf_meta :: "string option"
  controller :: bool
  toasts :: "(string \<times> string) list"
  posted :: "sw_message list"
  page_fetched :: "request list"

definition showToast :: "string \<Rightarrow> string \<Rightarrow> page_state \<Rightarrow> page_state" where
  "showToast message type st = st\<lparr>toasts := toasts st @ [(message, type)]\<rparr>"

definition getCSRFToken :: "page_state \<Rightarrow> string" where
  "getCSRFToken st = (case csrf_meta st of None \<Rightarrow> [] | Some content \<Rightarrow> content)"

text \<open>\<open>Store.saveToStorage\<close> catches a failing \<open>setItem\<close>; the value in memory is set all the same.\<close>

definition setMetrics :: "json option \<Rightarrow> page_state \<Rightarrow> page_state" where
  "setMetrics metrics st =
     (let st1 = st\<lparr>cached_metrics := metrics\<rparr>
      in if lf_ok st1 then st1\<lparr>lf_metrics := metrics\<rparr> else st1)"

definition getCachedMetrics :: "page_state \<Rightarrow> json option" where
  "getCachedMetrics st =
     (if lf_ok st then (if truthy_opt (lf_metrics st) then lf_metrics st else None) else None)"

subsection \<open>\<open>DataManager.fetchData\<close>\<close>

datatype thrown = FetchRejected | HttpError nat | InvalidJson | TypeError

record fetch_options =
  opt_method :: "string option"
  opt_headers :: "(string \<times> string) list option"
  opt_body :: "json option"

text \<open>
  Reading a property of a parsed response: \<open>null\<close> has none and the read throws, an
  object gives the property or \<open>undefined\<close>, and the properties read here
  (\<open>success\<close>, \<open>data\<close>) are \<open>undefined\<close> on every other value.
\<close>

fun read_prop :: "json \<Rightarrow> string \<Rightarrow> thrown + json option" where
  "read_prop JNull k = Inl TypeError"
| "read_prop (JObj kvs) k = Inr (map_of kvs k)"
| "read_prop j k = Inr None"

definition success_body :: "json option \<Rightarrow> json" where
  "success_body d =
     JObj ((''success'', JBool True) # (case d of None \<Rightarrow> [] | Some v \<Rightarrow> [(''data'', v)]))"

definition failure_body :: "string \<Rightarrow> json" where
  "failure_body message = JObj [(''success'', JBool False), (''message'', JStr message)]"

definition handleOfflineData :: "string \<Rightarrow> fetch_options \<Rightarrow> page_state \<Rightarrow> json" where
  "handleOfflineData u options st =
     (let fallback = failure_body ''Cannot fetch this data while offline''
      in if js_includes u ''/api/generateReports'' then
           (if truthy_opt (getCachedMetrics st) then success_body (getCachedMetrics st)
            else failure_body ''No cached metrics available offline'')
         else if js_includes u ''/api/getSalesRecords'' then
           (if truthy_opt (cached_sales st) then success_body (cached_sales st) else fallback)
         else if js_includes u ''/api/getCustomers'' then
           (if truthy_opt (cached_customers st) then success_body (cached_customers st)
            else fallback)
         else if js_includes u ''/api/getVendors'' then
           (if truthy_opt (cached_vendors st) then success_body (cached_vendors st)
            else fallback)
         else if js_includes u ''/api/getExpensesRecords'' then
           (if truthy_opt (cached_expenses st) then success_body (cached_expenses st)
            else fallback)
         else fallback)"

text \<open>The request \<open>fetchData\<close> builds: the caller's headers are spread last.\<close>

definition page_request :: "page_state \<Rightarrow> string \<Rightarrow> fetch_options \<Rightarrow> request" where
  "page_request st u options =
     \<lparr>req_url = u,
      req_method = or_str (opt_method options) ''GET'',
      req_headers =
        spread
          (spread [(''Content-Type'', ''application/json''), (''X-CSRF-Token'', getCSRFToken st)]
                  (if token st \<noteq> [] then [(''Authorization'', ''Bearer '' @ token st)] else []))
          (or_obj (opt_headers options) []),
      req_body =
        (case opt_body options of
           None \<Rightarrow> None
         | Some b \<Rightarrow> if truthy b then Some (stringify b) else None)\<rparr>"

text \<open>
  After a parsed response the caches are refreshed: the first of the five branches whose
  URL test and \<open>data.success\<close> both hold stores \<open>data.data\<close>; \<open>data.success\<close> is read
  only where the URL test holds.
\<close>

definition url_and_success :: "string \<Rightarrow> string \<Rightarrow> json \<Rightarrow> thrown + bool" where
  "url_and_success u pat data =
     (if js_includes u pat
      then (case read_prop data ''success'' of
              Inl e \<Rightarrow> Inl e
            | Inr v \<Rightarrow> Inr (truthy_opt v))
      else Inr False)"

definition data_of :: "json \<Rightarrow> json option" where
  "data_of data = (case read_prop data ''data'' of Inl e \<Rightarrow> None | Inr v \<Rightarrow> v)"

fun refresh_cache ::
  "(string \<times> (json option \<Rightarrow> page_state \<Rightarrow> page_state)) list \<Rightarrow> string \<Rightarrow> json \<Rightarrow>
     page_state \<Rightarrow> thrown + page_state" where
  "refresh_cache [] u data st = Inr st"
| "refresh_cache ((pat, store) # branches) u data st =
     (case url_and_success u pat data of
        Inl e \<Rightarrow> Inl e
      | Inr True \<Rightarrow> Inr (store (data_of data) st)
      | Inr False \<Rightarrow> refresh_cache branches u data st)"

definition cache_branches :: "(string \<times> (json option \<Rightarrow> page_state \<Rightarrow> page_state)) list" where
  "cache_branches =
     [(''/api/getSalesRecords'', \<lambda>d st. st\<lparr>cached_sales := d\<rparr>),
      (''/api/getCustomers'', \<lambda>d st. st\<lparr>cached_customers := d\<rparr>),
      (''/api/getVendors'', \<lambda>d st. st\<lparr>cached_vendors := d\<rparr>),
      (''/api/getExpensesRecords'', \<lambda>d st. st\<lparr>cached_expenses := d\<rparr>),
      (''/api/generateReports'', setMetrics)]"

definition fetchData ::
  "network \<Rightarrow> string \<Rightarrow> fetch_options \<Rightarrow> page_state \<Rightarrow> (thrown + json) \<times> page_state" where
  "fetchData net u options st =
     (if offline st then (Inr (handleOfflineData u options st), st)
      else
        let req = page_request st u options;
            st1 = st\<lparr>page_fetched := page_fetched st @ [req]\<rparr>
        in (case net (length (page_fetched st)) req of
              Throws \<Rightarrow> (Inl FetchRejected, st1)
            | Response status b \<Rightarrow>
                (if \<not> response_ok status then (Inl (HttpError status), st1)
                 else (case b of
                         None \<Rightarrow> (Inl InvalidJson, st1)
                       | Some data \<Rightarrow>
                           (case refresh_cache cache_branches u data st1 of
                              Inl e \<Rightarrow> (Inl e, st1)
                            | Inr st2 \<Rightarrow> (Inr data, st2))))))"

subsection \<open>\<open>OfflineManager\<close>\<close>

definition queueForm :: "string \<Rightarrow> form_data \<Rightarrow> page_state \<Rightarrow> page_state" where
  "queueForm now formData st =
     (if \<not> lf_ok st then st
      else
        let st1 = st\<lparr>lf_formQueue := lf_formQueue st @
                      [formData\<lparr>fd_timestamp := Some now,
                                fd_attempts := Some 0,
                                fd_csrfToken := Some (getCSRFToken st)\<rparr>]\<rparr>
        in if controller st1
           then st1\<lparr>posted := posted st1 @
                      [QueueForm (formData\<lparr>fd_csrfToken := Some (getCSRFToken st1)\<rparr>)]\<rparr>
           else st1)"

text \<open>
  \<open>form.attempts >= 3\<close> and \<open>form.attempts++\<close> on a count that may be absent: an absent
  count is never at the bound, and stays no number when incremented.
\<close>

definition at_bound :: "form_data \<Rightarrow> bool" where
  "at_bound form = (case fd_attempts form of None \<Rightarrow> False | Some n \<Rightarrow> n \<ge> 3)"

definition increment :: "form_data \<Rightarrow> form_data" where
  "increment form = form\<lparr>fd_attempts := map_option Suc (fd_attempts form)\<rparr>"

definition sync_options :: "form_data \<Rightarrow> fetch_options" where
  "sync_options form = \<lparr>opt_method = fd_method form, opt_headers = None, opt_body = fd_data form\<rparr>"

text \<open>
  The loop runs over the array read at the start. \<open>queue.filter(q => q !== form)\<close>
  compares objects by identity, so it drops the one element the loop is at, and
  \<open>form.attempts++\<close> changes the element where it stays. The function returns the
  elements that stay, in order.
\<close>

fun pending_loop :: "network \<Rightarrow> form_data list \<Rightarrow> page_state \<Rightarrow> form_data list \<times> page_state" where
  "pending_loop net [] st = ([], st)"
| "pending_loop net (form # rest) st =
     (if at_bound form
      then pending_loop net rest
             (showToast (''Failed to sync form '' @ fd_formId form @ '' after max attempts'')
                        ''danger'' st)
      else (case fetchData net (fd_url form) (sync_options form) st of
              (Inr data, st1) \<Rightarrow>
                pending_loop net rest
                  (showToast (''Synced form '' @ fd_formId form) ''success'' st1)
            | (Inl err, st1) \<Rightarrow>
                (case pending_loop net rest st1 of
                   (kept, st2) \<Rightarrow> (increment form # kept, st2))))"

definition syncPendingForms :: "network \<Rightarrow> page_state \<Rightarrow> page_state" where
  "syncPendingForms net st =
     (if \<not> lf_ok st then st
      else if lf_formQueue st = [] then st
      else (case pending_loop net (lf_formQueue st) st of
              (queue, st1) \<Rightarrow> st1\<lparr>lf_formQueue := queue\<rparr>))"

subsection \<open>\<open>DataManager.submitForm\<close>\<close>

definition submitForm ::
  "network \<Rightarrow> string \<Rightarrow> string \<Rightarrow> string option \<Rightarrow> json option \<Rightarrow> string \<Rightarrow> page_state \<Rightarrow>
     (thrown + json) \<times> page_state" where
  "submitForm net now u m d form_id st =
     (if offline st
      then (Inr (JObj [(''success'', JBool True), (''message'', JStr ''Request queued'')]),
            showToast ''Request queued for sync when online'' ''info''
              (queueForm now
                 \<lparr>fd_url = u, fd_method = m, fd_headers = None, fd_body = None, fd_data = d,
                  fd_formId = form_id, fd_timestamp = None, fd_attempts = None,
                  fd_csrfToken = None\<rparr>
                 st))
      else (case fetchData net u \<lparr>opt_method = m, opt_headers = None, opt_body = d\<rparr> st of
              (Inr result, st1) \<Rightarrow>
                (case read_prop result ''success'' of
                   Inr v \<Rightarrow> (Inr result, st1)
                 | Inl err \<Rightarrow> (Inl err, showToast ''Error submitting form'' ''danger'' st1))
            | (Inl err, st1) \<Rightarrow> (Inl err, showToast ''Error submitting form'' ''danger'' st1)))"

subsection \<open>The connectivity listeners\<close>

definition on_online :: "network \<Rightarrow> page_state \<Rightarrow> page_state" where
  "on_online net st =
     syncPendingForms net
       (showToast ''Back online. Syncing data...'' ''success'' (st\<lparr>offline := False\<rparr>))"

definition on_offline :: "page_state \<Rightarrow> page_state" where
  "on_offline st =
     showToast ''You are now offline. Working in offline mode.'' ''warning''
       (st\<lparr>offline := True\<rparr>)"

section \<open>Example networks and states\<close>

text \<open>A network on which every call of \<open>fetch\<close> rejects.\<close>

definition net_down :: network where
  "net_down n r = Throws"

text \<open>A network whose server accepts every request.\<close>

definition net_ok :: network where
  "net_ok n r = Response 200 (Some (JObj [(''success'', JBool True)]))"

text \<open>A network whose server answers every request with status 200 and \<open>success: false\<close>.\<close>

definition net_refusing :: network where
  "net_refusing n r = Response 200 (Some (failure_body ''Invalid credentials''))"

definition sale :: submission where
  "sale = \<lparr>sub_id = 1, url = ''/api/addSale'', http_method = ''POST'',
           headers = [(''Content-Type'', ''application/json'')],
           body = JObj [(''amount'', JNum 250)], formId = ''saleForm'',
           timestamp = ''2024-05-01T10:00:00.000Z'', attempts = 0, csrfToken = ''tok''\<rparr>"

text \<open>A record whose stored headers name a content type and a CSRF token of their own.\<close>

definition plain_sale :: submission where
  "plain_sale = sale\<lparr>headers := [(''Content-Type'', ''text/plain''), (''X-CSRF-Token'', ''stale'')]\<rparr>"

text \<open>A record that has failed three times.\<close>

definition stuck_expense :: submission where
  "stuck_expense = \<lparr>sub_id = 2, url = ''/api/addExpense'', http_method = ''POST'',
           headers = [(''Content-Type'', ''application/json'')],
           body = JObj [(''amount'', JNum 40)], formId = ''expenseForm'',
           timestamp = ''2024-05-01T10:05:00.000Z'', attempts = 3, csrfToken = ''tok''\<rparr>"

definition worker :: "submission list \<Rightarrow> sw_state" where
  "worker rs = \<lparr>db_ok = True, db_store = rs, db_nextKey = 10, sw_clients = [7]\<rparr>"

definition sale_form :: form_data where
  "sale_form = \<lparr>fd_url = ''/api/addSale'', fd_method = Some ''POST'', fd_headers = None,
                fd_body = None, fd_data = Some (JObj [(''amount'', JNum 250)]),
                fd_formId = ''saleForm'', fd_timestamp = None, fd_attempts = None,
                fd_csrfToken = None\<rparr>"

definition page :: "bool \<Rightarrow> bool \<Rightarrow> form_data list \<Rightarrow> page_state" where
  "page off ctl queue =
     \<lparr>offline = off, token = ''session'', cached_sales = Some (JArr []),
      cached_customers = Some (JArr []), cached_vendors = Some (JArr []),
      cached_expenses = Some (JArr []), cached_metrics = None, lf_ok = True,
      lf_metrics = None, lf_formQueue = queue, csrf_meta = Some ''tok'', controller = ctl,
      toasts = [], posted = [], page_fetched = []\<rparr>"


text \<open>An element of the page's queue, as \<open>queueForm\<close> stamps it.\<close>

definition queued_sale :: form_data where
  "queued_sale =
     sale_form\<lparr>fd_timestamp := Some ''2024-05-01T10:00:00.000Z'', fd_attempts := Some 0,
               fd_csrfToken := Some ''tok''\<rparr>"

text \<open>The toast the page's loop shows for a queue element while the offline flag is set.\<close>

definition outcome_toast :: "form_data \<Rightarrow> string \<times> string" where
  "outcome_toast form =
     (if at_bound form
      then (''Failed to sync form '' @ fd_formId form @ '' after max attempts'', ''danger'')
      else (''Synced form '' @ fd_formId form, ''success''))"

text \<open>
  The store's invariant: the records are in strictly ascending key order and every key
  is below the key generator.
\<close>

definition store_wf :: "sw_state \<Rightarrow> bool" where
  "store_wf st =
     (sorted_wrt (<) (map sub_id (db_store st))
      \<and> list_all (\<lambda>r. sub_id r < db_nextKey st) (db_store st))"

section \<open>Facts about the JavaScript operators\<close>


lemma or_str_Some [simp]: "or_str (Some s) [] = s"
  by (simp add: or_str_def)

lemma or_num_Some [simp]: "or_num (Some n) 0 = n"
  by (simp add: or_num_def)

lemma map_of_set_prop: "map_of (set_prop k v ps) = (map_of ps)(k \<mapsto> v)"
  by (induction ps) auto

lemma map_of_spread: "map_of (spread a b) = map_of a ++ map_of (rev b)"
  by (induction a b rule: spread.induct)
     (auto simp: map_of_set_prop map_add_def fun_eq_iff split: option.splits)

lemma map_of_rev_distinct: "distinct (map fst ps) \<Longrightarrow> map_of (rev ps) = map_of ps"
proof (induction ps)
  case Nil
  then show ?case by simp
next
  case (Cons p ps)
  obtain k v where p: "p = (k, v)" by (cases p)
  from Cons.prems p have "map_of ps k = None"
    by (simp add: map_of_eq_None_iff)
  with Cons p show ?case
    by (auto simp: map_add_def fun_eq_iff split: option.splits)
qed

lemma get_prop_spread:
  assumes "distinct (map fst b)"
  shows "get_prop (spread a b) k = (case get_prop b k of Some v \<Rightarrow> Some v | None \<Rightarrow> get_prop a k)"
  using assms unfolding get_prop_def
  by (simp add: map_of_spread map_add_def map_of_rev_distinct)

section \<open>The service worker's pass\<close>

text \<open>The pass calls \<open>fetch\<close> once for each record below the bound, in queue order.\<close>

lemma sync_loop_fetched:
  "fetched (sync_loop net q acc) =
     fetched acc @ map (\<lambda>s. (s, replay_request s)) (filter (\<lambda>s. attempts s < 3) q)"
  by (induction q arbitrary: acc) (auto simp: Let_def split: fetch_outcome.splits)

lemma syncForms_fetched:
  assumes "syncForms net st = Inr pass"
  shows "sp_fetched pass =
           map (\<lambda>s. (s, replay_request s)) (filter (\<lambda>s. attempts s < 3) (db_store st))"
  using assms
  by (auto simp: syncForms_def getQueue_def openDB_def Let_def sync_loop_fetched
           split: if_splits sum.splits prod.splits)

lemmas pass_defs = syncForms_def getQueue_def openDB_def removeFromQueue_def updateQueue_def

lemma bump_attempts_id [simp]: "sub_id (bump_attempts s) = sub_id s"
  by (simp add: bump_attempts_def)

lemma bump_attempts_attempts [simp]: "attempts (bump_attempts s) = Suc (attempts s)"
  by (simp add: bump_attempts_def)

text \<open>The loop moves every record of the queue into one of the two lists.\<close>

lemma sync_loop_ids:
  "distinct (map sub_id (successfulSubmissions acc @ failedSubmissions acc) @ map sub_id q) \<Longrightarrow>
   distinct (map sub_id (successfulSubmissions (sync_loop net q acc)
                          @ failedSubmissions (sync_loop net q acc)))
   \<and> sub_id ` set (successfulSubmissions (sync_loop net q acc)
                    @ failedSubmissions (sync_loop net q acc))
       = sub_id ` set (successfulSubmissions acc @ failedSubmissions acc) \<union> sub_id ` set q"
proof (induction q arbitrary: acc)
  case Nil
  then show ?case by simp
next
  case (Cons s q)
  show ?case
  proof (cases "attempts s \<ge> 3")
    case True
    with Cons.prems Cons.IH [of "acc\<lparr>failedSubmissions := failedSubmissions acc @ [s]\<rparr>"]
    show ?thesis by auto
  next
    case False
    let ?acc' = "acc\<lparr>fetched := fetched acc @ [(s, replay_request s)]\<rparr>"
    let ?ok = "?acc'\<lparr>successfulSubmissions := successfulSubmissions ?acc' @ [s]\<rparr>"
    let ?ko = "?acc'\<lparr>failedSubmissions := failedSubmissions ?acc' @ [bump_attempts s]\<rparr>"
    from Cons.prems have "distinct (map sub_id (successfulSubmissions ?ok @ failedSubmissions ?ok) @ map sub_id q)"
      by auto
    note ok = Cons.IH [OF this]
    from Cons.prems have "distinct (map sub_id (successfulSubmissions ?ko @ failedSubmissions ?ko) @ map sub_id q)"
      by auto
    note ko = Cons.IH [OF this]
    show ?thesis
    proof (cases "net (length (fetched acc)) (replay_request s)")
      case Throws
      with False ko show ?thesis by (auto simp: Let_def)
    next
      case (Response status b)
      with False ok ko show ?thesis by (cases "response_ok status") (auto simp: Let_def)
    qed
  qed
qed

lemma sync_loop_results:
  "(\<forall>s \<in> set q. attempts s \<ge> 3 \<longrightarrow> s \<in> set (failedSubmissions (sync_loop net q acc)))
   \<and> (\<forall>s \<in> set q. attempts s < 3 \<longrightarrow>
          s \<in> set (successfulSubmissions (sync_loop net q acc))
          \<or> bump_attempts s \<in> set (failedSubmissions (sync_loop net q acc)))
   \<and> set (successfulSubmissions acc) \<subseteq> set (successfulSubmissions (sync_loop net q acc))
   \<and> set (failedSubmissions acc) \<subseteq> set (failedSubmissions (sync_loop net q acc))"
proof (induction q arbitrary: acc)
  case Nil
  then show ?case by simp
next
  case (Cons s q)
  show ?case
  proof (cases "attempts s \<ge> 3")
    case True
    with Cons.IH [of "acc\<lparr>failedSubmissions := failedSubmissions acc @ [s]\<rparr>"]
    show ?thesis by auto
  next
    case False
    let ?acc' = "acc\<lparr>fetched := fetched acc @ [(s, replay_request s)]\<rparr>"
    let ?ok = "?acc'\<lparr>successfulSubmissions := successfulSubmissions ?acc' @ [s]\<rparr>"
    let ?ko = "?acc'\<lparr>failedSubmissions := failedSubmissions ?acc' @ [bump_attempts s]\<rparr>"
    note ok = Cons.IH [of ?ok] and ko = Cons.IH [of ?ko]
    show ?thesis
    proof (cases "net (length (fetched acc)) (replay_request s)")
      case Throws
      with False ko show ?thesis by (auto simp: Let_def)
    next
      case (Response status b)
      with False ok ko show ?thesis by (cases "response_ok status") (auto simp: Let_def)
    qed
  qed
qed


lemma set_store_delete: "set (store_delete k rs) = {r \<in> set rs. sub_id r \<noteq> k}"
  by (auto simp: store_delete_def)

lemma sorted_store_delete:
  "sorted_wrt (<) (map sub_id rs) \<Longrightarrow> sorted_wrt (<) (map sub_id (store_delete k rs))"
  by (simp add: store_delete_def sorted_wrt_map sorted_wrt_filter)

lemma foldl_store_delete:
  "sorted_wrt (<) (map sub_id rs) \<Longrightarrow>
   sorted_wrt (<) (map sub_id (foldl (\<lambda>rs s. store_delete (sub_id s) rs) rs ss))
   \<and> set (foldl (\<lambda>rs s. store_delete (sub_id s) rs) rs ss)
       = {r \<in> set rs. sub_id r \<notin> sub_id ` set ss}"
proof (induction ss arbitrary: rs)
  case Nil
  then show ?case by simp
next
  case (Cons s ss)
  from Cons.IH [OF sorted_store_delete [OF Cons.prems, of "sub_id s"]]
  show ?case by (auto simp: set_store_delete)
qed

lemma store_put_sorted:
  "sorted_wrt (<) (map sub_id rs) \<Longrightarrow>
   sorted_wrt (<) (map sub_id (store_put s rs))
   \<and> set (store_put s rs) = insert s {r \<in> set rs. sub_id r \<noteq> sub_id s}"
proof (induction rs)
  case Nil
  then show ?case by simp
next
  case (Cons r rs)
  then have IH: "sorted_wrt (<) (map sub_id (store_put s rs))"
    "set (store_put s rs) = insert s {r \<in> set rs. sub_id r \<noteq> sub_id s}"
    by simp_all
  from Cons.prems have below: "\<forall>x \<in> set rs. sub_id r < sub_id x" and srt: "sorted_wrt (<) (map sub_id rs)"
    by simp_all
  show ?case
  proof (cases "sub_id s = sub_id r")
    case True
    with below srt show ?thesis by auto
  next
    case False
    show ?thesis
    proof (cases "sub_id s < sub_id r")
      case True
      with below srt show ?thesis by fastforce
    next
      case gt: False
      with False have "sub_id r < sub_id s" by simp
      with False gt below IH show ?thesis by auto
    qed
  qed
qed

lemma foldl_store_put:
  "sorted_wrt (<) (map sub_id rs) \<Longrightarrow> distinct (map sub_id fs) \<Longrightarrow>
   sorted_wrt (<) (map sub_id (foldl (\<lambda>rs s. store_put s rs) rs fs))
   \<and> set (foldl (\<lambda>rs s. store_put s rs) rs fs)
       = set fs \<union> {r \<in> set rs. sub_id r \<notin> sub_id ` set fs}"
proof (induction fs arbitrary: rs)
  case Nil
  then show ?case by simp
next
  case (Cons f fs)
  note put = store_put_sorted [OF Cons.prems(1), of f]
  from Cons.prems(2) have d: "distinct (map sub_id fs)" and nf: "sub_id f \<notin> sub_id ` set fs"
    by simp_all
  from Cons.IH [OF conjunct1 [OF put] d] put nf
  show ?case by auto
qed

lemma foldl_max_keys:
  "list_all (\<lambda>s. sub_id s < n) fs \<Longrightarrow> foldl (\<lambda>n s. max n (Suc (sub_id s))) n fs = n"
  by (induction fs) (simp_all add: max_absorb1 Suc_leI)


lemma syncForms_store:
  assumes wf: "store_wf st" and pass: "syncForms net st = Inr pass" and ne: "db_store st \<noteq> []"
  defines "acc \<equiv> sync_loop net (db_store st)
                    \<lparr>successfulSubmissions = [], failedSubmissions = [], fetched = []\<rparr>"
  shows "set (db_store (sp_state pass)) = set (failedSubmissions acc)"
    and "sorted_wrt (<) (map sub_id (db_store (sp_state pass)))"
    and "db_nextKey (sp_state pass) = db_nextKey st"
    and "sub_id ` set (failedSubmissions acc) \<subseteq> sub_id ` set (db_store st)"
    and "sub_id ` set (successfulSubmissions acc) \<inter> sub_id ` set (failedSubmissions acc) = {}"
proof -
  from wf have srt: "sorted_wrt (<) (map sub_id (db_store st))"
    and below: "list_all (\<lambda>r. sub_id r < db_nextKey st) (db_store st)"
    by (simp_all add: store_wf_def)
  from srt have "distinct (map sub_id (db_store st))"
    by (simp add: strict_sorted_iff)
  then have ids: "distinct (map sub_id (successfulSubmissions acc @ failedSubmissions acc))"
    "sub_id ` set (successfulSubmissions acc @ failedSubmissions acc) = sub_id ` set (db_store st)"
    using sync_loop_ids [of "\<lparr>successfulSubmissions = [], failedSubmissions = [], fetched = []\<rparr>" "db_store st" net]
    by (simp_all add: acc_def)
  show sub: "sub_id ` set (failedSubmissions acc) \<subseteq> sub_id ` set (db_store st)"
    using ids(2) by auto
  show disj: "sub_id ` set (successfulSubmissions acc) \<inter> sub_id ` set (failedSubmissions acc) = {}"
    using ids(1) by auto
  from ids(1) have df: "distinct (map sub_id (failedSubmissions acc))" by simp
  let ?rs1 = "foldl (\<lambda>rs s. store_delete (sub_id s) rs) (db_store st) (successfulSubmissions acc)"
  let ?rs2 = "foldl (\<lambda>rs s. store_put s rs) ?rs1 (failedSubmissions acc)"
  note del = foldl_store_delete [OF srt, of "successfulSubmissions acc"]
  note put = foldl_store_put [OF conjunct1 [OF del] df]
  from below sub have fb: "list_all (\<lambda>s. sub_id s < db_nextKey st) (failedSubmissions acc)"
    unfolding list_all_iff by (metis (mono_tags, lifting) image_iff subsetD)
  from pass ne have st': "db_store (sp_state pass) = ?rs2"
    "db_nextKey (sp_state pass) = foldl (\<lambda>n s. max n (Suc (sub_id s))) (db_nextKey st) (failedSubmissions acc)"
    by (auto simp: syncForms_def getQueue_def openDB_def removeFromQueue_def updateQueue_def
                   Let_def acc_def split: if_splits)
  show "db_nextKey (sp_state pass) = db_nextKey st"
    using st'(2) foldl_max_keys [OF fb] by simp
  show "sorted_wrt (<) (map sub_id (db_store (sp_state pass)))"
    using put st'(1) by simp
  have "set ?rs2 = set (failedSubmissions acc)
          \<union> {r \<in> set (db_store st). sub_id r \<notin> sub_id ` set (successfulSubmissions acc)
                                    \<and> sub_id r \<notin> sub_id ` set (failedSubmissions acc)}"
    using put del by auto
  also have "{r \<in> set (db_store st). sub_id r \<notin> sub_id ` set (successfulSubmissions acc)
                                    \<and> sub_id r \<notin> sub_id ` set (failedSubmissions acc)} = {}"
    using ids(2) by auto
  finally show "set (db_store (sp_state pass)) = set (failedSubmissions acc)"
    using st'(1) by simp
qed

section \<open>The page's pass\<close>

lemma showToast_fields [simp]:
  "offline (showToast m t st) = offline st"
  "token (showToast m t st) = token st"
  "csrf_meta (showToast m t st) = csrf_meta st"
  "lf_ok (showToast m t st) = lf_ok st"
  "lf_formQueue (showToast m t st) = lf_formQueue st"
  "controller (showToast m t st) = controller st"
  "posted (showToast m t st) = posted st"
  "page_fetched (showToast m t st) = page_fetched st"
  "toasts (showToast m t st) = toasts st @ [(m, t)]"
  by (simp_all add: showToast_def)

lemma page_request_cong:
  "token st' = token st \<Longrightarrow> csrf_meta st' = csrf_meta st \<Longrightarrow>
   page_request st' u options = page_request st u options"
  by (simp add: page_request_def getCSRFToken_def)

lemma refresh_cache_fields:
  assumes "refresh_cache cache_branches u data st = Inr st2"
  shows "offline st2 = offline st \<and> token st2 = token st \<and> csrf_meta st2 = csrf_meta st
         \<and> lf_ok st2 = lf_ok st \<and> lf_formQueue st2 = lf_formQueue st
         \<and> controller st2 = controller st \<and> posted st2 = posted st
         \<and> page_fetched st2 = page_fetched st \<and> toasts st2 = toasts st"
  using assms
  by (auto simp: cache_branches_def setMetrics_def Let_def split: sum.splits bool.splits if_splits)

lemma fetchData_online:
  assumes "\<not> offline st" and "fetchData net u options st = (r, st')"
  shows "page_fetched st' = page_fetched st @ [page_request st u options]
         \<and> offline st' = offline st \<and> token st' = token st \<and> csrf_meta st' = csrf_meta st
         \<and> lf_ok st' = lf_ok st \<and> lf_formQueue st' = lf_formQueue st
         \<and> controller st' = controller st \<and> posted st' = posted st \<and> toasts st' = toasts st"
  using assms refresh_cache_fields
  by (fastforce simp: fetchData_def Let_def split: fetch_outcome.splits if_splits option.splits sum.splits)

lemma fetchData_offline:
  "offline st \<Longrightarrow> fetchData net u options st = (Inr (handleOfflineData u options st), st)"
  by (simp add: fetchData_def)

lemma pending_loop_offline:
  "offline st \<Longrightarrow>
   pending_loop net q st = ([], st\<lparr>toasts := toasts st @ map outcome_toast q\<rparr>)"
proof (induction q arbitrary: st)
  case Nil
  then show ?case by simp
next
  case (Cons form rest)
  show ?case
  proof (cases "at_bound form")
    case True
    then show ?thesis
      using Cons.IH [of "showToast (''Failed to sync form '' @ fd_formId form @ '' after max attempts'') ''danger'' st"] Cons.prems
      by (simp add: outcome_toast_def showToast_def)
  next
    case False
    then show ?thesis
      using Cons.IH [of "showToast (''Synced form '' @ fd_formId form) ''success'' st"] Cons.prems
      by (simp add: outcome_toast_def fetchData_offline showToast_def)
  qed
qed

lemma pending_loop_online:
  assumes "\<not> offline st" and "pending_loop net q st = (kept, st')"
  shows "page_fetched st' =
           page_fetched st @
           map (\<lambda>f. page_request st (fd_url f) (sync_options f)) (filter (\<lambda>f. \<not> at_bound f) q)
         \<and> offline st' = offline st \<and> token st' = token st \<and> csrf_meta st' = csrf_meta st
         \<and> lf_ok st' = lf_ok st \<and> controller st' = controller st \<and> posted st' = posted st"
  using assms
proof (induction q arbitrary: st kept st')
  case Nil
  then show ?case by simp
next
  case (Cons form rest)
  show ?case
  proof (cases "at_bound form")
    case True
    let ?st1 = "showToast (''Failed to sync form '' @ fd_formId form @ '' after max attempts'') ''danger'' st"
    from True Cons.prems have "pending_loop net rest ?st1 = (kept, st')" by simp
    moreover have "\<And>u options. page_request ?st1 u options = page_request st u options"
      by (rule page_request_cong) simp_all
    ultimately show ?thesis
      using Cons.IH [of ?st1 kept st'] Cons.prems(1) True by simp
  next
    case False
    obtain r st1 where f: "fetchData net (fd_url form) (sync_options form) st = (r, st1)"
      by (cases "fetchData net (fd_url form) (sync_options form) st")
    note fd = fetchData_online [OF Cons.prems(1) f]
    show ?thesis
    proof (cases r)
      case (Inr data)
      let ?st2 = "showToast (''Synced form '' @ fd_formId form) ''success'' st1"
      from False f Inr Cons.prems have "pending_loop net rest ?st2 = (kept, st')" by simp
      moreover have "\<And>u options. page_request ?st2 u options = page_request st u options"
        by (rule page_request_cong) (simp_all add: fd)
      ultimately show ?thesis
        using Cons.IH [of ?st2 kept st'] fd Cons.prems(1) False by simp
    next
      case (Inl err)
      obtain kept' st2 where p: "pending_loop net rest st1 = (kept', st2)"
        by (cases "pending_loop net rest st1")
      with False f Inl Cons.prems have "st' = st2" by simp
      moreover have "\<And>u options. page_request st1 u options = page_request st u options"
        by (rule page_request_cong) (simp_all add: fd)
      ultimately show ?thesis
        using Cons.IH [of st1 kept' st2] p fd Cons.prems(1) False by simp
    qed
  qed
qed

section \<open>What the worker's pass leaves in the store\<close>

text \<open>
  What a pass leaves in the store: every record at the bound as it was, and of
  every record below the bound either nothing or the record with one more attempt.
\<close>

lemma syncForms_keeps_at_bound:
  assumes "store_wf st" and "syncForms net st = Inr pass" and "s \<in> set (db_store st)"
    and "attempts s \<ge> 3"
  shows "s \<in> set (db_store (sp_state pass))"
proof -
  from assms(3) have ne: "db_store st \<noteq> []" by auto
  from sync_loop_results [of "db_store st" net] assms(3,4)
  have "s \<in> set (failedSubmissions (sync_loop net (db_store st)
                    \<lparr>successfulSubmissions = [], failedSubmissions = [], fetched = []\<rparr>))"
    by blast
  with syncForms_store(1) [OF assms(1,2) ne] show ?thesis by simp
qed

lemma syncForms_below_bound:
  assumes "store_wf st" and "syncForms net st = Inr pass" and "s \<in> set (db_store st)"
    and "attempts s < 3"
  shows "sub_id s \<notin> sub_id ` set (db_store (sp_state pass))
         \<or> bump_attempts s \<in> set (db_store (sp_state pass))"
proof -
  let ?acc = "sync_loop net (db_store st)
                \<lparr>successfulSubmissions = [], failedSubmissions = [], fetched = []\<rparr>"
  from assms(3) have ne: "db_store st \<noteq> []" by auto
  note st = syncForms_store [OF assms(1,2) ne]
  from sync_loop_results [of "db_store st" net] assms(3,4)
  consider "s \<in> set (successfulSubmissions ?acc)" | "bump_attempts s \<in> set (failedSubmissions ?acc)"
    by blast
  then show ?thesis
  proof cases
    case 1
    then have "sub_id s \<in> sub_id ` set (successfulSubmissions ?acc)" by simp
    with st(5) have "sub_id s \<notin> sub_id ` set (failedSubmissions ?acc)" by blast
    with st(1) show ?thesis by simp
  next
    case 2
    with st(1) show ?thesis by simp
  qed
qed

lemma syncForms_store_wf:
  assumes "store_wf st" and "syncForms net st = Inr pass"
  shows "store_wf (sp_state pass) \<and> db_nextKey (sp_state pass) = db_nextKey st"
proof (cases "db_store st = []")
  case True
  with assms(2) have "sp_state pass = st"
    by (cases "db_ok st") (simp_all add: syncForms_def getQueue_def openDB_def, force)
  with assms(1) show ?thesis by simp
next
  case False
  note st = syncForms_store [OF assms False]
  from assms(1) have below: "\<forall>r \<in> set (db_store st). sub_id r < db_nextKey st"
    by (simp add: store_wf_def list_all_iff)
  have "sub_id r < db_nextKey st" if "r \<in> set (db_store (sp_state pass))" for r
  proof -
    from that st(1) have "sub_id r \<in> sub_id ` set (failedSubmissions (sync_loop net (db_store st)
                    \<lparr>successfulSubmissions = [], failedSubmissions = [], fetched = []\<rparr>))"
      by simp
    with st(4) have "sub_id r \<in> sub_id ` set (db_store st)" by (rule subsetD)
    with below show ?thesis by force
  qed
  with st(2,3) show ?thesis
    by (simp add: store_wf_def list_all_iff)
qed

section \<open>Enqueueing\<close>

lemma queueForm_eq:
  "lf_ok st \<Longrightarrow>
   queueForm now formData st =
     st\<lparr>lf_formQueue := lf_formQueue st @
            [formData\<lparr>fd_timestamp := Some now, fd_attempts := Some 0,
                      fd_csrfToken := Some (getCSRFToken st)\<rparr>],
        posted := (if controller st
                   then posted st @ [QueueForm (formData\<lparr>fd_csrfToken := Some (getCSRFToken st)\<rparr>)]
                   else posted st)\<rparr>"
  by (simp add: queueForm_def Let_def getCSRFToken_def)

lemma on_message_QueueForm:
  "db_ok st \<Longrightarrow>
   on_message now (QueueForm formData) st =
     ([Reply True None],
      st\<lparr>db_store := db_store st @
           [\<lparr>sub_id = db_nextKey st,
             url = fd_url formData,
             http_method = or_str (fd_method formData) ''POST'',
             headers = or_obj (fd_headers formData) [(''Content-Type'', ''application/json'')],
             body = or_json (fd_body formData) (JObj []),
             formId = fd_formId formData,
             timestamp = or_str (fd_timestamp formData) now,
             attempts = or_num (fd_attempts formData) 0,
             csrfToken = or_str (fd_csrfToken formData) []\<rparr>],
         db_nextKey := Suc (db_nextKey st)\<rparr>)"
  by (simp add: on_message_def addToQueue_def openDB_def store_add_def or_str_def
           split: option.splits)


section \<open>Serialization\<close>

lemma digit_not_brace: "d < 16 \<Longrightarrow> digit d \<noteq> CHR ''{''"
proof -
  assume "d < 16"
  then have "digit d \<in> set ''0123456789abcdef''"
    unfolding digit_def by (intro nth_mem) simp
  then show ?thesis by auto
qed

lemma show_nat_hd: "\<exists>c cs. show_nat n = c # cs \<and> c \<noteq> CHR ''{''"
proof (induction n rule: show_nat.induct)
  case (1 n)
  show ?case
  proof (cases "n < 10")
    case True
    then show ?thesis
      by (subst show_nat.simps) (simp add: digit_not_brace)
  next
    case False
    with 1 obtain c cs where "show_nat (n div 10) = c # cs" "c \<noteq> CHR ''{''"
      by blast
    with False show ?thesis
      by (subst show_nat.simps) simp
  qed
qed

lemma show_int_not_brace: "show_int i \<noteq> ''{}''"
proof (cases "i < 0")
  case True
  then show ?thesis by (simp add: show_int_def)
next
  case False
  obtain c cs where "show_nat (nat i) = c # cs" "c \<noteq> CHR ''{''"
    using show_nat_hd by blast
  with False show ?thesis by (simp add: show_int_def)
qed

lemma stringify_members_empty: "stringify_members kvs = [] \<longleftrightarrow> kvs = []"
proof (cases kvs)
  case Nil
  then show ?thesis by simp
next
  case (Cons p ps)
  obtain k v where "p = (k, v)" by (cases p)
  with Cons show ?thesis by (cases ps) (simp_all add: quote_def)
qed

lemma stringify_empty_object: "stringify j = ''{}'' \<longleftrightarrow> j = JObj []"
proof (cases j)
  case (JNum n)
  then show ?thesis by (simp add: show_int_not_brace)
next
  case (JObj kvs)
  then show ?thesis by (simp add: stringify_members_empty)
qed (simp_all add: quote_def)


section \<open>More on the page's pass\<close>

lemma fetchData_toasts:
  "fetchData net u options st = (r, st') \<Longrightarrow> toasts st' = toasts st"
  by (cases "offline st") (auto simp: fetchData_offline dest: fetchData_online)

lemma pending_loop_toasts:
  "pending_loop net q st = (kept, st') \<Longrightarrow> \<exists>more. toasts st' = toasts st @ more"
proof (induction q arbitrary: st kept st')
  case Nil
  then show ?case by simp
next
  case (Cons form rest)
  show ?case
  proof (cases "at_bound form")
    case True
    with Cons.prems Cons.IH [of _ kept st'] show ?thesis by fastforce
  next
    case False
    obtain r st1 where f: "fetchData net (fd_url form) (sync_options form) st = (r, st1)"
      by (cases "fetchData net (fd_url form) (sync_options form) st")
    note t = fetchData_toasts [OF f]
    show ?thesis
    proof (cases r)
      case (Inr data)
      with False f Cons.prems
      have "pending_loop net rest (showToast (''Synced form '' @ fd_formId form) ''success'' st1) = (kept, st')"
        by simp
      from Cons.IH [OF this] t show ?thesis by fastforce
    next
      case (Inl err)
      obtain kept' st2 where p: "pending_loop net rest st1 = (kept', st2)"
        by (cases "pending_loop net rest st1")
      with False f Inl Cons.prems have "st' = st2" by simp
      with Cons.IH [OF p] t show ?thesis by simp
    qed
  qed
qed

text \<open>The elements that stay are elements below the bound, each with one more attempt.\<close>

lemma pending_loop_kept:
  "pending_loop net q st = (kept, st') \<Longrightarrow>
   set kept \<subseteq> increment ` {form \<in> set q. \<not> at_bound form}"
proof (induction q arbitrary: st kept st')
  case Nil
  then show ?case by simp
next
  case (Cons form rest)
  show ?case
  proof (cases "at_bound form")
    case True
    with Cons.prems Cons.IH [of _ kept st'] show ?thesis by fastforce
  next
    case False
    obtain r st1 where f: "fetchData net (fd_url form) (sync_options form) st = (r, st1)"
      by (cases "fetchData net (fd_url form) (sync_options form) st")
    show ?thesis
    proof (cases r)
      case (Inr data)
      with False f Cons.prems
      have "pending_loop net rest (showToast (''Synced form '' @ fd_formId form) ''success'' st1) = (kept, st')"
        by simp
      from Cons.IH [OF this] show ?thesis by auto
    next
      case (Inl err)
      obtain kept' st2 where p: "pending_loop net rest st1 = (kept', st2)"
        by (cases "pending_loop net rest st1")
      with False f Inl Cons.prems have "kept = increment form # kept'" by simp
      with Cons.IH [OF p] False show ?thesis by auto
    qed
  qed
qed

text \<open>A response with status 200 and \<open>success: false\<close> makes \<open>fetchData\<close> return.\<close>

lemma refresh_cache_refused:
  "refresh_cache branches u (failure_body message) st = Inr st"
  by (induction branches) (auto simp: url_and_success_def failure_body_def truthy_opt_def)

lemma fetchData_refused:
  assumes "\<not> offline st"
    and "net (length (page_fetched st)) (page_request st u options) = Response 200 (Some (failure_body message))"
  shows "fetchData net u options st =
           (Inr (failure_body message), st\<lparr>page_fetched := page_fetched st @ [page_request st u options]\<rparr>)"
  using assms by (simp add: fetchData_def Let_def response_ok_def refresh_cache_refused)

lemma pending_loop_refused:
  assumes "\<And>n r. net n r = Response 200 (Some (failure_body message))"
  shows "\<not> offline st \<Longrightarrow> fst (pending_loop net q st) = []"
proof (induction q arbitrary: st)
  case Nil
  then show ?case by simp
next
  case (Cons form rest)
  show ?case
  proof (cases "at_bound form")
    case True
    with Cons.prems Cons.IH [of "showToast (''Failed to sync form '' @ fd_formId form @ '' after max attempts'') ''danger'' st"]
    show ?thesis by simp
  next
    case False
    let ?st1 = "st\<lparr>page_fetched := page_fetched st @ [page_request st (fd_url form) (sync_options form)]\<rparr>"
    from fetchData_refused [OF Cons.prems assms]
    have "fetchData net (fd_url form) (sync_options form) st = (Inr (failure_body message), ?st1)" .
    with False Cons.prems
      Cons.IH [of "showToast (''Synced form '' @ fd_formId form) ''success'' ?st1"]
    show ?thesis by simp
  qed
qed

section \<open>The listeners and the pass while offline\<close>

lemma on_online_pass:
  shows "\<not> offline (on_online net st)"
    and "\<exists>more. toasts (on_online net st)
                  = toasts st @ (''Back online. Syncing data...'', ''success'') # more"
    and "lf_ok st \<Longrightarrow>
         page_fetched (on_online net st) =
           page_fetched st @
           map (\<lambda>f. page_request st (fd_url f) (sync_options f))
               (filter (\<lambda>f. \<not> at_bound f) (lf_formQueue st))"
proof -
  let ?st0 = "showToast ''Back online. Syncing data...'' ''success'' (st\<lparr>offline := False\<rparr>)"
  have off: "\<not> offline ?st0" by simp
  have req: "\<And>u options. page_request ?st0 u options = page_request st u options"
    by (rule page_request_cong) (simp_all add: showToast_def)
  have t0: "toasts ?st0 = toasts st @ [(''Back online. Syncing data...'', ''success'')]"
    by (simp add: showToast_def)
  have f0: "page_fetched ?st0 = page_fetched st" "lf_formQueue ?st0 = lf_formQueue st"
    "lf_ok ?st0 = lf_ok st"
    by (simp_all add: showToast_def)
  obtain kept st' where p: "pending_loop net (lf_formQueue ?st0) ?st0 = (kept, st')"
    by (cases "pending_loop net (lf_formQueue ?st0) ?st0")
  note on = pending_loop_online [OF off p]
  from pending_loop_toasts [OF p] obtain more where more: "toasts st' = toasts ?st0 @ more"
    by blast
  have run: "on_online net st =
               (if \<not> lf_ok st \<or> lf_formQueue st = [] then ?st0 else st'\<lparr>lf_formQueue := kept\<rparr>)"
    using p by (simp add: on_online_def syncPendingForms_def f0)
  show "\<not> offline (on_online net st)"
    using on off by (simp add: run)
  show "\<exists>more. toasts (on_online net st)
                  = toasts st @ (''Back online. Syncing data...'', ''success'') # more"
    using more t0 by (simp add: run)
  show "page_fetched (on_online net st) =
           page_fetched st @
           map (\<lambda>f. page_request st (fd_url f) (sync_options f))
               (filter (\<lambda>f. \<not> at_bound f) (lf_formQueue st))" if "lf_ok st"
    using that on by (simp add: run req f0)
qed

lemma on_offline_eq:
  "on_offline st =
     st\<lparr>offline := True,
        toasts := toasts st @ [(''You are now offline. Working in offline mode.'', ''warning'')]\<rparr>"
  by (simp add: on_offline_def showToast_def)

lemma syncPendingForms_offline:
  assumes "lf_ok st" and "offline st"
  shows "syncPendingForms net st =
           st\<lparr>toasts := toasts st @ map outcome_toast (lf_formQueue st), lf_formQueue := []\<rparr>"
  using assms by (simp add: syncPendingForms_def pending_loop_offline)

section \<open>A pass on an available database resolves\<close>

lemma syncForms_resolves:
  assumes "db_ok st"
  shows "\<exists>pass. syncForms net st = Inr pass"
  using assms by (simp add: pass_defs Let_def)

lemma syncForms_replays_last:
  assumes "db_ok st" and "attempts record < 3"
  shows "\<exists>pass. syncForms net (st\<lparr>db_store := db_store st @ [record], db_nextKey := k\<rparr>) = Inr pass
           \<and> (record, replay_request record) \<in> set (sp_fetched pass)"
proof -
  let ?st' = "st\<lparr>db_store := db_store st @ [record], db_nextKey := k\<rparr>"
  from assms(1) have "db_ok ?st'" by simp
  from syncForms_resolves [OF this] obtain pass where p: "syncForms net ?st' = Inr pass"
    by blast
  from syncForms_fetched [OF p] assms(2) have "(record, replay_request record) \<in> set (sp_fetched pass)"
    by simp
  with p show ?thesis by blast
qed

section \<open>Submitting a form while offline\<close>

lemma submitForm_offline:
  assumes "offline pg"
  shows "snd (submitForm net now u m d form_id pg) =
           showToast ''Request queued for sync when online'' ''info''
             (queueForm now
                \<lparr>fd_url = u, fd_method = m, fd_headers = None, fd_body = None, fd_data = d,
                 fd_formId = form_id, fd_timestamp = None, fd_attempts = None,
                 fd_csrfToken = None\<rparr> pg)"
  using assms by (simp add: submitForm_def)


text \<open>The page's pass keeps no element that is at the bound.\<close>

lemma syncPendingForms_drops_at_bound:
  assumes "lf_ok st" and "lf_formQueue st \<noteq> []"
  shows "set (lf_formQueue (syncPendingForms net st))
           \<subseteq> increment ` {form \<in> set (lf_formQueue st). \<not> at_bound form}"
proof -
  obtain kept st' where p: "pending_loop net (lf_formQueue st) st = (kept, st')"
    by (cases "pending_loop net (lf_formQueue st) st")
  with assms have "lf_formQueue (syncPendingForms net st) = kept"
    by (simp add: syncPendingForms_def)
  with pending_loop_kept [OF p] show ?thesis by simp
qed


section \<open>One call of \<open>queueForm\<close>, two copies\<close>



section \<open>The claims\<close>

text \<open>
  C1. A record whose \<open>attempts\<close> is at least 3 at the start of a pass should get no
  network call and be removed from the queue store during the pass. The page's pass does
  that; the worker's pass makes no call for the record but puts it in the failed list,
  which \<open>updateQueue\<close> writes back: on a store holding one record with \<open>attempts = 3\<close>
  the pass leaves the store as it was and reports one failure.
\<close>

theorem C1_worker_keeps_record_at_bound:
  "syncForms net (worker [stuck_expense]) =
     Inr \<lparr>sp_state = worker [stuck_expense], sp_fetched = [],
          sp_posted = [(7, FormsSynced 0 1)]\<rparr>"
  by (simp add: pass_defs worker_def stuck_expense_def)

text \<open>
  C2. A pass on an empty queue is claimed to make no network call and still to broadcast
  \<open>{type: "forms-synced", count: 0, failed: 0}\<close>. On an empty store with one client the
  pass does not post that message.
\<close>

theorem C2_empty_queue_counterexample:
  "syncForms net_down (worker []) \<noteq>
     Inr \<lparr>sp_state = worker [], sp_fetched = [], sp_posted = [(7, FormsSynced 0 0)]\<rparr>"
  by (simp add: pass_defs worker_def)

text \<open>
  C2, as the code has it: a pass on an empty queue returns at once. The worker's pass
  makes no network call, leaves the state as it is and posts no message to any client;
  the page's pass leaves the page's state, and with it the logs of calls and toasts, as
  it is.
\<close>

theorem C2_empty_queue_no_summary:
  assumes "db_ok sw" and "db_store sw = []" and "lf_formQueue pg = []"
  shows "syncForms net sw = Inr \<lparr>sp_state = sw, sp_fetched = [], sp_posted = []\<rparr>
         \<and> syncPendingForms net' pg = pg"
  using assms by (simp add: pass_defs syncPendingForms_def)

text \<open>The empty-queue pass on an example worker and an example page.\<close>

theorem C2_empty_queue_no_summary_witness:
  "db_ok (worker []) \<and> db_store (worker []) = [] \<and> lf_formQueue (page False True []) = []
   \<and> syncForms net_ok (worker []) = Inr \<lparr>sp_state = worker [], sp_fetched = [], sp_posted = []\<rparr>
   \<and> syncPendingForms net_ok (page False True []) = page False True []"
proof -
  have h: "db_ok (worker [])" "db_store (worker []) = []" "lf_formQueue (page False True []) = []"
    by (simp_all add: worker_def page_def)
  from C2_empty_queue_no_summary [OF h, of net_ok net_ok] h show ?thesis by simp
qed

text \<open>
  C3. Every record in the queue before a pass should afterwards be absent or have its
  \<open>attempts\<close> one greater. With a sale the server accepts and an expense that is at the
  bound, the worker's pass removes the sale and keeps the expense with \<open>attempts\<close>
  still 3.
\<close>

theorem C3_record_at_bound_not_incremented:
  "syncForms net_ok (worker [sale, stuck_expense]) =
     Inr \<lparr>sp_state = worker [stuck_expense],
          sp_fetched = [(sale, replay_request sale)],
          sp_posted = [(7, FormsSynced 1 1)]\<rparr>
   \<and> attempts stuck_expense = 3"
  by (simp add: pass_defs worker_def sale_def stuck_expense_def net_ok_def response_ok_def
                store_delete_def)

text \<open>
  C4. The replay request is claimed to carry the fixed \<open>Content-Type: application/json\<close>
  (prevailing in the merge) and an \<open>X-CSRF-Token\<close> equal to the record's \<open>csrfToken\<close>.
  For a record whose stored headers name \<open>text/plain\<close> and a token \<open>stale\<close>, the request
  carries those two values.
\<close>

theorem C4_stored_headers_prevail_counterexample:
  "syncForms net_down (worker [plain_sale]) =
     Inr \<lparr>sp_state = worker [plain_sale\<lparr>attempts := 1\<rparr>],
          sp_fetched =
            [(plain_sale,
              \<lparr>req_url = ''/api/addSale'', req_method = ''POST'',
               req_headers = [(''Content-Type'', ''text/plain''), (''X-CSRF-Token'', ''stale'')],
               req_body = Some (stringify (JObj [(''amount'', JNum 250)]))\<rparr>)],
          sp_posted = [(7, FormsSynced 0 1)]\<rparr>"
  by (simp add: pass_defs worker_def plain_sale_def sale_def net_down_def replay_request_def
                bump_attempts_def)

text \<open>
  C4, as the code has it: for every record of the queue that is below the bound, the pass
  makes exactly one request; it goes to the record's \<open>url\<close> with the record's
  \<open>method\<close>, its body is the JSON serialization of the record's \<open>body\<close>, and each of
  its headers is the stored header of that name when there is one, and otherwise the
  fixed \<open>Content-Type: application/json\<close> or the \<open>X-CSRF-Token\<close> equal to the record's
  \<open>csrfToken\<close>: the stored headers prevail in the merge.
\<close>

theorem C4_replay_request:
  assumes "syncForms net st = Inr pass" and "s \<in> set (db_store st)" and "attempts s < 3"
    and "distinct (map fst (headers s))"
  shows "\<exists>r. (s, r) \<in> set (sp_fetched pass)
           \<and> (\<forall>r'. (s, r') \<in> set (sp_fetched pass) \<longrightarrow> r' = r)
           \<and> req_url r = url s \<and> req_method r = http_method s
           \<and> req_body r = Some (stringify (body s))
           \<and> (\<forall>k. get_prop (req_headers r) k =
                 (case get_prop (headers s) k of
                    Some v \<Rightarrow> Some v
                  | None \<Rightarrow>
                      if k = ''Content-Type'' then Some ''application/json''
                      else if k = ''X-CSRF-Token'' then Some (csrfToken s)
                      else None))"
proof (intro exI [of _ "replay_request s"] conjI allI impI)
  note f = syncForms_fetched [OF assms(1)]
  show "(s, replay_request s) \<in> set (sp_fetched pass)"
    using assms(2,3) by (auto simp: f)
  show "r' = replay_request s" if "(s, r') \<in> set (sp_fetched pass)" for r'
    using that by (auto simp: f)
  show "req_url (replay_request s) = url s" "req_method (replay_request s) = http_method s"
    "req_body (replay_request s) = Some (stringify (body s))"
    by (simp_all add: replay_request_def)
  show "get_prop (req_headers (replay_request s)) k =
          (case get_prop (headers s) k of
             Some v \<Rightarrow> Some v
           | None \<Rightarrow>
               if k = ''Content-Type'' then Some ''application/json''
               else if k = ''X-CSRF-Token'' then Some (csrfToken s)
               else None)" for k
    using assms(4)
    by (simp add: replay_request_def get_prop_spread) (simp add: get_prop_def split: option.splits)
qed

text \<open>The replay request of the example record with headers of its own.\<close>

theorem C4_replay_request_witness:
  "syncForms net_down (worker [plain_sale]) =
     Inr \<lparr>sp_state = worker [plain_sale\<lparr>attempts := 1\<rparr>],
          sp_fetched = [(plain_sale, replay_request plain_sale)],
          sp_posted = [(7, FormsSynced 0 1)]\<rparr>
   \<and> plain_sale \<in> set (db_store (worker [plain_sale])) \<and> attempts plain_sale < 3
   \<and> distinct (map fst (headers plain_sale))
   \<and> (\<exists>r. (plain_sale, r) \<in> set [(plain_sale, replay_request plain_sale)]
          \<and> req_url r = ''/api/addSale''
          \<and> get_prop (req_headers r) ''Content-Type'' = Some ''text/plain''
          \<and> get_prop (req_headers r) ''Accept'' = None)"
proof -
  let ?pass = "\<lparr>sp_state = worker [plain_sale\<lparr>attempts := 1\<rparr>],
          sp_fetched = [(plain_sale, replay_request plain_sale)],
          sp_posted = [(7, FormsSynced 0 1)]\<rparr>"
  have h1: "syncForms net_down (worker [plain_sale]) = Inr ?pass"
    by (simp add: pass_defs worker_def plain_sale_def sale_def net_down_def bump_attempts_def)
  have h2: "plain_sale \<in> set (db_store (worker [plain_sale]))"
    by (simp add: worker_def)
  have h3: "attempts plain_sale < 3"
    by (simp add: plain_sale_def sale_def)
  have h4: "distinct (map fst (headers plain_sale))"
    by (simp add: plain_sale_def sale_def)
  from C4_replay_request [OF h1 h2 h3 h4] obtain r where
    r: "(plain_sale, r) \<in> set (sp_fetched ?pass)" "req_url r = url plain_sale"
      "\<forall>k. get_prop (req_headers r) k =
                 (case get_prop (headers plain_sale) k of
                    Some v \<Rightarrow> Some v
                  | None \<Rightarrow>
                      if k = ''Content-Type'' then Some ''application/json''
                      else if k = ''X-CSRF-Token'' then Some (csrfToken plain_sale)
                      else None)"
    by blast
  from r(3) have "get_prop (req_headers r) ''Content-Type'' = Some ''text/plain''"
    "get_prop (req_headers r) ''Accept'' = None"
    by (simp_all add: plain_sale_def sale_def get_prop_def)
  moreover from r(2) have "req_url r = ''/api/addSale''"
    by (simp add: plain_sale_def sale_def)
  ultimately show ?thesis using h1 h2 h3 h4 r(1) by auto
qed




text \<open>
  C6. Every call to enqueue is claimed to notify the worker in a way that wakes a
  background sync registration. On a page that no service worker controls, the call
  posts no message.
\<close>

theorem C6_no_controller_counterexample:
  "posted (queueForm ''2024-05-01T10:00:00.000Z'' sale_form (page True False [])) = []"
  by (simp add: queueForm_def page_def Let_def)

text \<open>
  C6, as the code has it. A call to enqueue posts one \<open>queue-form\<close> message, with the
  form data and the current CSRF token, when localforage works and a service worker
  controls the page, and posts nothing otherwise. On that message the worker adds
  the record to its store and replies \<open>{success: true}\<close>, or replies
  \<open>{success: false}\<close> and changes nothing when the database does not open.
  When the record is below the bound, the pass that a \<open>sync\<close> event with the tag
  \<open>sync-form-submissions\<close> starts replays it.
\<close>

theorem C6_enqueue_notification:
  "posted (queueForm now fd pg) =
     (if lf_ok pg \<and> controller pg
      then posted pg @ [QueueForm (fd\<lparr>fd_csrfToken := Some (getCSRFToken pg)\<rparr>)]
      else posted pg)
   \<and> (if db_ok sw
       then \<exists>record.
              on_message now' (QueueForm fd') sw =
                ([Reply True None],
                 sw\<lparr>db_store := db_store sw @ [record], db_nextKey := Suc (db_nextKey sw)\<rparr>)
              \<and> url record = fd_url fd' \<and> formId record = fd_formId fd'
              \<and> attempts record = or_num (fd_attempts fd') 0
              \<and> (if attempts record < 3
                  then \<exists>pass.
                         on_sync net ''sync-form-submissions''
                           (sw\<lparr>db_store := db_store sw @ [record],
                               db_nextKey := Suc (db_nextKey sw)\<rparr>) = Some (Inr pass)
                         \<and> (record, replay_request record) \<in> set (sp_fetched pass)
                  else True)
       else on_message now' (QueueForm fd') sw
              = ([Reply False (Some ''Failed to open database'')], sw))"
proof (intro conjI)
  show "posted (queueForm now fd pg) =
     (if lf_ok pg \<and> controller pg
      then posted pg @ [QueueForm (fd\<lparr>fd_csrfToken := Some (getCSRFToken pg)\<rparr>)]
      else posted pg)"
    by (cases "lf_ok pg") (simp_all add: queueForm_eq, simp add: queueForm_def)
next
  show "if db_ok sw
       then \<exists>record.
              on_message now' (QueueForm fd') sw =
                ([Reply True None],
                 sw\<lparr>db_store := db_store sw @ [record], db_nextKey := Suc (db_nextKey sw)\<rparr>)
              \<and> url record = fd_url fd' \<and> formId record = fd_formId fd'
              \<and> attempts record = or_num (fd_attempts fd') 0
              \<and> (if attempts record < 3
                  then \<exists>pass.
                         on_sync net ''sync-form-submissions''
                           (sw\<lparr>db_store := db_store sw @ [record],
                               db_nextKey := Suc (db_nextKey sw)\<rparr>) = Some (Inr pass)
                         \<and> (record, replay_request record) \<in> set (sp_fetched pass)
                  else True)
       else on_message now' (QueueForm fd') sw
              = ([Reply False (Some ''Failed to open database'')], sw)"
  proof (cases "db_ok sw")
    case False
    then show ?thesis
      by (simp add: on_message_def addToQueue_def openDB_def)
  next
    case True
    let ?rcd = "\<lparr>sub_id = db_nextKey sw,
             url = fd_url fd',
             http_method = or_str (fd_method fd') ''POST'',
             headers = or_obj (fd_headers fd') [(''Content-Type'', ''application/json'')],
             body = or_json (fd_body fd') (JObj []),
             formId = fd_formId fd',
             timestamp = or_str (fd_timestamp fd') now',
             attempts = or_num (fd_attempts fd') 0,
             csrfToken = or_str (fd_csrfToken fd') []\<rparr>"
    have replay: "\<exists>pass.
                         on_sync net ''sync-form-submissions''
                           (sw\<lparr>db_store := db_store sw @ [?rcd],
                               db_nextKey := Suc (db_nextKey sw)\<rparr>) = Some (Inr pass)
                         \<and> (?rcd, replay_request ?rcd) \<in> set (sp_fetched pass)"
      if "attempts ?rcd < 3"
      using syncForms_replays_last [OF True that] by (simp add: on_sync_def)
    show ?thesis
      using True on_message_QueueForm [OF True, of now' fd'] replay
      unfolding if_P [OF True] by (intro exI [of _ ?rcd]) auto
  qed
qed

text \<open>The example sale enqueued on a controlled page and replayed on a sync event.\<close>

theorem C6_enqueue_notification_witness:
  "posted (queueForm ''2024-05-01T10:00:00.000Z'' sale_form (page True True []))
     = [QueueForm (sale_form\<lparr>fd_csrfToken := Some ''tok''\<rparr>)]
   \<and> (\<exists>record.
         on_message ''2024-05-01T10:00:01.000Z''
           (QueueForm (sale_form\<lparr>fd_csrfToken := Some ''tok''\<rparr>)) (worker []) =
           ([Reply True None],
            \<lparr>db_ok = True, db_store = [record], db_nextKey = 11, sw_clients = [7]\<rparr>)
         \<and> url record = ''/api/addSale'' \<and> formId record = ''saleForm''
         \<and> attempts record = 0
         \<and> (\<exists>pass.
               on_sync net_ok ''sync-form-submissions''
                 \<lparr>db_ok = True, db_store = [record], db_nextKey = 11, sw_clients = [7]\<rparr>
                 = Some (Inr pass)
               \<and> (record, replay_request record) \<in> set (sp_fetched pass)))"
proof -
  have v: "lf_ok (page True True [])" "controller (page True True [])" "db_ok (worker [])"
    "posted (page True True []) = []" "getCSRFToken (page True True []) = ''tok''"
    "fd_attempts (sale_form\<lparr>fd_csrfToken := Some ''tok''\<rparr>) = None"
    "fd_url (sale_form\<lparr>fd_csrfToken := Some ''tok''\<rparr>) = ''/api/addSale''"
    "fd_formId (sale_form\<lparr>fd_csrfToken := Some ''tok''\<rparr>) = ''saleForm''"
    by (simp_all add: page_def worker_def getCSRFToken_def sale_form_def)
  have w: "worker []\<lparr>db_store := db_store (worker []) @ [r],
                      db_nextKey := Suc (db_nextKey (worker []))\<rparr>
           = \<lparr>db_ok = True, db_store = [r], db_nextKey = 11, sw_clients = [7]\<rparr>" for r
    by (simp add: worker_def)
  note c6 = C6_enqueue_notification [of "''2024-05-01T10:00:00.000Z''" sale_form
      "page True True []" "worker []" "''2024-05-01T10:00:01.000Z''"
      "sale_form\<lparr>fd_csrfToken := Some ''tok''\<rparr>" net_ok]
  from c6 v have a: "posted (queueForm ''2024-05-01T10:00:00.000Z'' sale_form (page True True []))
     = [QueueForm (sale_form\<lparr>fd_csrfToken := Some ''tok''\<rparr>)]"
    by simp
  from c6 v(3) obtain r where r:
    "on_message ''2024-05-01T10:00:01.000Z''
       (QueueForm (sale_form\<lparr>fd_csrfToken := Some ''tok''\<rparr>)) (worker []) =
       ([Reply True None],
        \<lparr>db_ok = True, db_store = [r], db_nextKey = 11, sw_clients = [7]\<rparr>)"
    "url r = ''/api/addSale''" "formId r = ''saleForm''" "attempts r = 0"
    "if attempts r < 3
     then \<exists>pass. on_sync net_ok ''sync-form-submissions''
                   \<lparr>db_ok = True, db_store = [r], db_nextKey = 11, sw_clients = [7]\<rparr>
                   = Some (Inr pass)
                 \<and> (r, replay_request r) \<in> set (sp_fetched pass)
     else True"
    unfolding w v(6,7,8) by (auto simp: or_num_def)
  from r(4,5) have "\<exists>pass. on_sync net_ok ''sync-form-submissions''
                   \<lparr>db_ok = True, db_store = [r], db_nextKey = 11, sw_clients = [7]\<rparr>
                   = Some (Inr pass)
                 \<and> (r, replay_request r) \<in> set (sp_fetched pass)"
    by simp
  with a r(1-4) show ?thesis by blast
qed

text \<open>
  C7. On the \<open>online\<close> event the page clears the offline flag, shows the
  reconnected toast and runs a sync pass: with localforage working, one request goes
  out for each queued form below the bound, in queue order. On the \<open>offline\<close>
  event it sets the flag and shows the disconnected toast and does nothing else: no
  request, no message to the worker, the queue as it was.
\<close>

theorem C7_connectivity_listeners:
  "\<not> offline (on_online net st)
   \<and> (\<exists>more. toasts (on_online net st)
               = toasts st @ (''Back online. Syncing data...'', ''success'') # more)
   \<and> on_online net st =
       syncPendingForms net
         (st\<lparr>offline := False,
             toasts := toasts st @ [(''Back online. Syncing data...'', ''success'')]\<rparr>)
   \<and> (if lf_ok st
       then page_fetched (on_online net st) =
              page_fetched st @
              map (\<lambda>f. page_request st (fd_url f) (sync_options f))
                  (filter (\<lambda>f. \<not> at_bound f) (lf_formQueue st))
       else page_fetched (on_online net st) = page_fetched st)
   \<and> on_offline st =
       st\<lparr>offline := True,
          toasts := toasts st @ [(''You are now offline. Working in offline mode.'', ''warning'')]\<rparr>
   \<and> page_fetched (on_offline st) = page_fetched st
   \<and> lf_formQueue (on_offline st) = lf_formQueue st
   \<and> posted (on_offline st) = posted st"
proof (intro conjI)
  show "\<not> offline (on_online net st)"
    by (rule on_online_pass(1))
  show "\<exists>more. toasts (on_online net st)
               = toasts st @ (''Back online. Syncing data...'', ''success'') # more"
    by (rule on_online_pass(2))
  show "on_online net st =
       syncPendingForms net
         (st\<lparr>offline := False,
             toasts := toasts st @ [(''Back online. Syncing data...'', ''success'')]\<rparr>)"
    by (simp add: on_online_def showToast_def)
  show "if lf_ok st
       then page_fetched (on_online net st) =
              page_fetched st @
              map (\<lambda>f. page_request st (fd_url f) (sync_options f))
                  (filter (\<lambda>f. \<not> at_bound f) (lf_formQueue st))
       else page_fetched (on_online net st) = page_fetched st"
    using on_online_pass(3) [of st net]
    by (simp add: on_online_def syncPendingForms_def)
  show "on_offline st =
       st\<lparr>offline := True,
          toasts := toasts st @ [(''You are now offline. Working in offline mode.'', ''warning'')]\<rparr>"
    by (rule on_offline_eq)
  show "page_fetched (on_offline st) = page_fetched st"
    "lf_formQueue (on_offline st) = lf_formQueue st"
    "posted (on_offline st) = posted st"
    by (simp_all add: on_offline_eq)
qed

text \<open>Going online with one queued sale, and going offline with it.\<close>

theorem C7_connectivity_listeners_witness:
  "\<not> offline (on_online net_ok (page True True [queued_sale]))
   \<and> toasts (on_online net_ok (page True True [queued_sale]))
       = [(''Back online. Syncing data...'', ''success''), (''Synced form saleForm'', ''success'')]
   \<and> lf_ok (page True True [queued_sale])
   \<and> page_fetched (on_online net_ok (page True True [queued_sale]))
       = [page_request (page True True [queued_sale]) ''/api/addSale'' (sync_options queued_sale)]
   \<and> lf_formQueue (on_online net_ok (page True True [queued_sale])) = []
   \<and> offline (on_offline (page False True [queued_sale]))
   \<and> page_fetched (on_offline (page False True [queued_sale])) = []
   \<and> lf_formQueue (on_offline (page False True [queued_sale])) = [queued_sale]"
proof -
  let ?on = "page True True [queued_sale]" and ?off = "page False True [queued_sale]"
  note on = C7_connectivity_listeners [of net_ok ?on]
  note off = C7_connectivity_listeners [of net_ok ?off]
  have v: "lf_ok ?on" "page_fetched ?on = []" "lf_formQueue ?on = [queued_sale]"
    "\<not> at_bound queued_sale" "fd_url queued_sale = ''/api/addSale''"
    "page_fetched ?off = []" "lf_formQueue ?off = [queued_sale]"
    by (simp_all add: page_def queued_sale_def at_bound_def sale_form_def)
  have run: "on_online net_ok ?on =
      ?on\<lparr>offline := False,
          toasts := [(''Back online. Syncing data...'', ''success''),
                     (''Synced form saleForm'', ''success'')],
          page_fetched := [page_request ?on ''/api/addSale'' (sync_options queued_sale)],
          lf_formQueue := []\<rparr>"
    by (simp add: on_online_def syncPendingForms_def showToast_def fetchData_def Let_def
                  net_ok_def response_ok_def at_bound_def page_def queued_sale_def sale_form_def
                  cache_branches_def url_and_success_def sync_options_def page_request_def
                  getCSRFToken_def truthy_opt_def)
  from on have c1: "\<not> offline (on_online net_ok ?on)"
    by (rule conjunct1)
  from on [THEN conjunct2, THEN conjunct2, THEN conjunct2, THEN conjunct1] v
  have c4: "page_fetched (on_online net_ok ?on)
              = [page_request ?on ''/api/addSale'' (sync_options queued_sale)]"
    by simp
  note rest = off [THEN conjunct2, THEN conjunct2, THEN conjunct2, THEN conjunct2]
  from rest [THEN conjunct1] have c5: "offline (on_offline ?off)"
    by simp
  from rest [THEN conjunct2, THEN conjunct1] v
  have c6: "page_fetched (on_offline ?off) = []"
    by simp
  from rest [THEN conjunct2, THEN conjunct2, THEN conjunct1] v
  have c7: "lf_formQueue (on_offline ?off) = [queued_sale]"
    by simp
  have t: "toasts (on_online net_ok ?on)
       = [(''Back online. Syncing data...'', ''success''), (''Synced form saleForm'', ''success'')]"
    "lf_formQueue (on_online net_ok ?on) = []"
    by (simp_all add: run)
  from c1 c4 c5 c6 c7 t v(1) show ?thesis by simp
qed

text \<open>
  C8. \<open>DataManager.submitForm\<close> queues the payload under \<open>data\<close>, and the worker
  reads \<open>body\<close>. For a form submitted while the offline flag is set, with
  localforage working, a service worker controlling the page and its database opening:
  the page's queue element keeps the payload, the record the worker adds on the page's
  message has the empty object as its \<open>body\<close>, a pass replays it with the JSON
  body \<open>{}\<close>, and that is the serialization of no payload other than the empty
  object.
\<close>

theorem C8_submitForm_payload_lost:
  assumes "offline pg" and "lf_ok pg" and "controller pg" and "db_ok sw"
  shows "\<exists>msg rcd sw'.
           posted (snd (submitForm net now u m d form_id pg)) = posted pg @ [msg]
           \<and> fd_data (last (lf_formQueue (snd (submitForm net now u m d form_id pg)))) = d
           \<and> on_message now' msg sw = ([Reply True None], sw')
           \<and> db_store sw' = db_store sw @ [rcd]
           \<and> url rcd = u \<and> formId rcd = form_id \<and> attempts rcd = 0
           \<and> body rcd = JObj []
           \<and> (\<exists>pass. syncForms net' sw' = Inr pass
                  \<and> (rcd, replay_request rcd) \<in> set (sp_fetched pass))
           \<and> req_body (replay_request rcd) = Some ''{}''
           \<and> (\<forall>payload. payload \<noteq> JObj [] \<longrightarrow>
                  req_body (replay_request rcd) \<noteq> Some (stringify payload))"
proof -
  let ?fd = "\<lparr>fd_url = u, fd_method = m, fd_headers = None, fd_body = None, fd_data = d,
                 fd_formId = form_id, fd_timestamp = None, fd_attempts = None,
                 fd_csrfToken = None\<rparr>"
  let ?fd' = "?fd\<lparr>fd_csrfToken := Some (getCSRFToken pg)\<rparr>"
  let ?rcd = "\<lparr>sub_id = db_nextKey sw,
             url = fd_url ?fd',
             http_method = or_str (fd_method ?fd') ''POST'',
             headers = or_obj (fd_headers ?fd') [(''Content-Type'', ''application/json'')],
             body = or_json (fd_body ?fd') (JObj []),
             formId = fd_formId ?fd',
             timestamp = or_str (fd_timestamp ?fd') now',
             attempts = or_num (fd_attempts ?fd') 0,
             csrfToken = or_str (fd_csrfToken ?fd') []\<rparr>"
  let ?sw' = "sw\<lparr>db_store := db_store sw @ [?rcd], db_nextKey := Suc (db_nextKey sw)\<rparr>"
  let ?pg' = "snd (submitForm net now u m d form_id pg)"
  have pg': "?pg' = showToast ''Request queued for sync when online'' ''info'' (queueForm now ?fd pg)"
    by (rule submitForm_offline [OF assms(1)])
  note q = queueForm_eq [OF assms(2), of now ?fd]
  have a: "posted ?pg' = posted pg @ [QueueForm ?fd']"
    using assms(3) by (simp add: pg' q)
  have b: "fd_data (last (lf_formQueue ?pg')) = d"
    by (simp add: pg' q)
  note c = on_message_QueueForm [OF assms(4), of now' ?fd']
  have att: "attempts ?rcd = 0" and bd: "body ?rcd = JObj []"
    by (simp_all add: or_num_def or_json_def)
  from att have "attempts ?rcd < 3" by simp
  from syncForms_replays_last [OF assms(4) this, of net' "Suc (db_nextKey sw)"]
  have e: "\<exists>pass. syncForms net' ?sw' = Inr pass
                  \<and> (?rcd, replay_request ?rcd) \<in> set (sp_fetched pass)" .
  have f: "req_body (replay_request ?rcd) = Some ''{}''"
    by (simp add: replay_request_def or_json_def)
  have g: "\<forall>payload. payload \<noteq> JObj [] \<longrightarrow>
                  req_body (replay_request ?rcd) \<noteq> Some (stringify payload)"
  proof (intro allI impI notI)
    fix payload
    assume ne: "payload \<noteq> JObj []"
      and eq: "req_body (replay_request ?rcd) = Some (stringify payload)"
    from eq f have "stringify payload = ''{}''" by simp
    then have "payload = JObj []" by (rule stringify_empty_object [THEN iffD1])
    with ne show False by simp
  qed
  show ?thesis
    using a b c att bd e f g
    by (intro exI [of _ "QueueForm ?fd'"] exI [of _ ?rcd] exI [of _ ?sw']) simp
qed

text \<open>The example sale submitted offline: its amount is not in the replayed body.\<close>

theorem C8_submitForm_payload_lost_witness:
  "offline (page True True []) \<and> lf_ok (page True True []) \<and> controller (page True True [])
   \<and> db_ok (worker [])
   \<and> (\<exists>msg rcd sw'.
         posted (snd (submitForm net_ok ''2024-05-01T10:00:00.000Z'' ''/api/addSale''
                        (Some ''POST'') (Some (JObj [(''amount'', JNum 250)])) ''saleForm''
                        (page True True []))) = [msg]
         \<and> on_message ''2024-05-01T10:00:01.000Z'' msg (worker []) = ([Reply True None], sw')
         \<and> db_store sw' = [rcd]
         \<and> url rcd = ''/api/addSale'' \<and> body rcd = JObj []
         \<and> req_body (replay_request rcd) = Some ''{}''
         \<and> req_body (replay_request rcd) \<noteq> Some (stringify (JObj [(''amount'', JNum 250)])))"
proof -
  have h: "offline (page True True [])" "lf_ok (page True True [])"
    "controller (page True True [])" "db_ok (worker [])"
    by (simp_all add: page_def worker_def)
  have v: "posted (page True True []) = []" "db_store (worker []) = []"
    by (simp_all add: page_def worker_def)
  from C8_submitForm_payload_lost [OF h, of net_ok "''2024-05-01T10:00:00.000Z''"
      "''/api/addSale''" "Some ''POST''" "Some (JObj [(''amount'', JNum 250)])" "''saleForm''"
      "''2024-05-01T10:00:01.000Z''" net_ok]
  obtain msg rcd sw' where r:
    "posted (snd (submitForm net_ok ''2024-05-01T10:00:00.000Z'' ''/api/addSale''
                        (Some ''POST'') (Some (JObj [(''amount'', JNum 250)])) ''saleForm''
                        (page True True []))) = [msg]"
    "on_message ''2024-05-01T10:00:01.000Z'' msg (worker []) = ([Reply True None], sw')"
    "db_store sw' = [rcd]" "url rcd = ''/api/addSale''" "body rcd = JObj []"
    "req_body (replay_request rcd) = Some ''{}''"
    "\<forall>payload. payload \<noteq> JObj [] \<longrightarrow>
        req_body (replay_request rcd) \<noteq> Some (stringify payload)"
    unfolding v by auto
  from r(7) [rule_format, of "JObj [(''amount'', JNum 250)]"]
  have "req_body (replay_request rcd) \<noteq> Some (stringify (JObj [(''amount'', JNum 250)]))"
    by simp
  with r(1-6) h show ?thesis by blast
qed




text \<open>
  C10. In the page's pass an element below the bound leaves the queue whenever
  \<open>fetchData\<close> returns, whatever it returns: the loop goes on without the element.
  A server that answers every request with status 200 and \<open>success: false\<close> empties
  the queue. While the offline flag is set, \<open>fetchData\<close> returns the offline
  fallback: the pass empties the queue without a call of \<open>fetch\<close> and without a
  message to the worker, and shows a toast for each element.
\<close>

theorem C10_page_pass_drops_undelivered:
  assumes "lf_ok st"
  shows "(\<not> at_bound form
          \<and> fetchData net (fd_url form) (sync_options form) st = (Inr data, st1)
          \<longrightarrow> pending_loop net (form # rest) st =
                pending_loop net rest
                  (showToast (''Synced form '' @ fd_formId form) ''success'' st1))
         \<and> (\<not> offline st \<and> (\<forall>n r. net n r = Response 200 (Some (failure_body message)))
              \<longrightarrow> lf_formQueue (syncPendingForms net st) = [])
         \<and> (offline st
              \<longrightarrow> lf_formQueue (syncPendingForms net st) = []
                  \<and> page_fetched (syncPendingForms net st) = page_fetched st
                  \<and> posted (syncPendingForms net st) = posted st
                  \<and> toasts (syncPendingForms net st)
                      = toasts st @ map outcome_toast (lf_formQueue st))"
proof (intro conjI impI)
  assume "\<not> at_bound form \<and> fetchData net (fd_url form) (sync_options form) st = (Inr data, st1)"
  then show "pending_loop net (form # rest) st =
                pending_loop net rest
                  (showToast (''Synced form '' @ fd_formId form) ''success'' st1)"
    by simp
next
  assume a: "\<not> offline st \<and> (\<forall>n r. net n r = Response 200 (Some (failure_body message)))"
  then have "fst (pending_loop net (lf_formQueue st) st) = []"
    using pending_loop_refused [of net message st "lf_formQueue st"] by blast
  then show "lf_formQueue (syncPendingForms net st) = []"
    using assms
    by (cases "pending_loop net (lf_formQueue st) st") (simp add: syncPendingForms_def)
next
  assume off: "offline st"
  note eq = syncPendingForms_offline [OF assms off, of net]
  show "lf_formQueue (syncPendingForms net st) = []"
    "page_fetched (syncPendingForms net st) = page_fetched st"
    "posted (syncPendingForms net st) = posted st"
    "toasts (syncPendingForms net st) = toasts st @ map outcome_toast (lf_formQueue st)"
    by (simp_all add: eq)
qed

text \<open>A refused sale and a sale met while offline both leave the queue.\<close>

theorem C10_page_pass_drops_undelivered_witness:
  "lf_ok (page False True [queued_sale]) \<and> \<not> offline (page False True [queued_sale])
   \<and> \<not> at_bound queued_sale
   \<and> fst (fetchData net_refusing (fd_url queued_sale) (sync_options queued_sale)
             (page False True [queued_sale]))
       = Inr (failure_body ''Invalid credentials'')
   \<and> fst (pending_loop net_refusing [queued_sale] (page False True [queued_sale])) = []
   \<and> lf_formQueue (syncPendingForms net_refusing (page False True [queued_sale])) = []
   \<and> lf_ok (page True True [queued_sale]) \<and> offline (page True True [queued_sale])
   \<and> lf_formQueue (syncPendingForms net_ok (page True True [queued_sale])) = []
   \<and> page_fetched (syncPendingForms net_ok (page True True [queued_sale])) = []
   \<and> toasts (syncPendingForms net_ok (page True True [queued_sale]))
       = [(''Synced form saleForm'', ''success'')]"
proof -
  let ?on = "page False True [queued_sale]" and ?off = "page True True [queued_sale]"
  let ?st1 = "?on\<lparr>page_fetched := page_fetched ?on @
                [page_request ?on (fd_url queued_sale) (sync_options queued_sale)]\<rparr>"
  have h: "lf_ok ?on" "\<not> offline ?on" "lf_ok ?off" "offline ?off" "\<not> at_bound queued_sale"
    by (simp_all add: page_def at_bound_def queued_sale_def)
  have v: "page_fetched ?off = []" "toasts ?off = []" "lf_formQueue ?off = [queued_sale]"
    "outcome_toast queued_sale = (''Synced form saleForm'', ''success'')"
    by (simp_all add: page_def outcome_toast_def at_bound_def queued_sale_def sale_form_def)
  have refusing: "\<forall>n r. net_refusing n r = Response 200 (Some (failure_body ''Invalid credentials''))"
    by (simp add: net_refusing_def)
  have f: "fetchData net_refusing (fd_url queued_sale) (sync_options queued_sale) ?on
             = (Inr (failure_body ''Invalid credentials''), ?st1)"
    by (rule fetchData_refused [OF h(2)]) (simp add: net_refusing_def)
  note on = C10_page_pass_drops_undelivered [OF h(1), of queued_sale net_refusing
      "failure_body ''Invalid credentials''" ?st1 "[]" "''Invalid credentials''"]
  note off = C10_page_pass_drops_undelivered [OF h(3), of queued_sale net_ok]
  from on [THEN conjunct1] h(5) f
  have c1: "fst (pending_loop net_refusing [queued_sale] ?on) = []"
    by simp
  from on [THEN conjunct2, THEN conjunct1] h(2) refusing
  have c2: "lf_formQueue (syncPendingForms net_refusing ?on) = []"
    by blast
  from off [THEN conjunct2, THEN conjunct2] h(4) v
  have c3: "lf_formQueue (syncPendingForms net_ok ?off) = []"
    "page_fetched (syncPendingForms net_ok ?off) = []"
    "toasts (syncPendingForms net_ok ?off) = [(''Synced form saleForm'', ''success'')]"
    by simp_all
  from h f c1 c2 c3 show ?thesis by simp
qed

end
